theory Spec2Isabelle
  imports Main "HOL-Library.Multiset" "HOL-Library.Word"
begin

section \<open>JavaScript strings\<close>

text \<open>
  A JavaScript string is a sequence of UTF-16 code units. \<open>utf16\<close> writes the string of an
  ASCII literal.
\<close>

type_synonym jschar = "16 word"

type_synonym jsstring = "jschar list"

definition utf16 :: "string \<Rightarrow> jsstring" where
  "utf16 s = map of_char s"

text \<open>The code units of \<open>-\<close> and \<open>+\<close>.\<close>

definition dash :: jschar where
  "dash = 0x2D"

definition plusSign :: jschar where
  "plusSign = 0x2B"

section \<open>Data model of \<open>client/src/lib/timetable-generator.ts\<close>\<close>

text \<open>
  Modelled from the spec: the entity types \<open>Course\<close>, \<open>Classroom\<close>, \<open>Constraint\<close> and
  \<open>ScheduledClass\<close> are imported by the source from \<open>@shared/schema\<close>, which is not part
  of the sources. Their fields are the ones the generator reads or writes, with the types
  the spec's data model gives them (numeric identifiers, credit count and capacities as
  integers, day and time-slot labels as strings). Field names carry a prefix because
  several of the source's types share field names (\<open>id\<close>, \<open>day\<close>, \<open>capacity\<close>).
\<close>

record Course =
  course_id :: int
  course_code :: jsstring
  course_credits :: int
  course_capacity :: int
  course_instructorId :: int
  course_departmentId :: int

record Instructor =
  instructor_id :: int

record Classroom =
  room_id :: int
  room_capacity :: int

record Constraint =
  con_type :: jsstring
  con_entityId :: int
  con_day :: jsstring
  con_timeSlot :: jsstring

text \<open>\<open>interface ClassSlot { day; timeSlot }\<close>\<close>

record ClassSlot =
  slot_day :: jsstring
  slot_timeSlot :: jsstring

text \<open>
  The output row. \<open>endTime\<close> is optional in the model: the scattered phase destructures
  \<open>split('-')\<close>, which leaves \<open>endTime\<close> \<open>undefined\<close> for a label without a dash.
\<close>

record ScheduledClass =
  sc_id :: int
  sc_courseId :: int
  sc_instructorId :: int
  sc_classroomId :: int
  sc_day :: jsstring
  sc_startTime :: jsstring
  sc_endTime :: "jsstring option"
  sc_timetableId :: int

text \<open>\<open>interface TimetableGeneratorOptions\<close>\<close>

record TimetableGeneratorOptions =
  courses :: "Course list"
  instructors :: "Instructor list"
  classrooms :: "Classroom list"
  constraints :: "Constraint list"
  timetableId :: int

text \<open>
  The JavaScript numbers that \<open>parseInt\<close> can return and that serve as keys and entries
  of the \<open>courseConflicts\<close> index: an integer, \<open>NaN\<close>, or an infinity. \<open>-0\<close> is
  \<open>Num 0\<close>: the generator uses these numbers as property keys only, and \<open>-0\<close> and \<open>0\<close>
  are the same key.
\<close>

datatype jsnum = NaN | Num int | PosInfinity | NegInfinity

text \<open>The only exception the generator can raise (\<open>undefined.trim()\<close>).\<close>

datatype error = TypeError

text \<open>
  The two \<open>console.warn\<close> lines, with the values interpolated into their templates:
  \<open>No suitable rooms for course ${code}\<close> and
  \<open>Could only assign ${assignedSlots}/${slotsNeeded} slots for course ${code}\<close>.
\<close>

datatype warning =
  NoSuitableRooms jsstring
| CouldOnlyAssign nat nat jsstring

text \<open>
  A run that throws: the exception, and what the run had written to the console by then.
\<close>

type_synonym thrown = "error \<times> warning list"

section \<open>String primitives\<close>

text \<open>
  White space as \<open>String.prototype.trim\<close> and \<open>parseInt\<close> understand it: the
  \<open>WhiteSpace\<close> and \<open>LineTerminator\<close> code points of ECMAScript, which are tab, line
  feed, vertical tab, form feed, carriage return, space, no-break space, the other space
  separators of Unicode (\<open>U+1680\<close>, \<open>U+2000\<close> to \<open>U+200A\<close>, \<open>U+202F\<close>, \<open>U+205F\<close>,
  \<open>U+3000\<close>), the line and paragraph separators and the byte order mark. Each is a
  single code unit.
\<close>

definition isSpace :: "jschar \<Rightarrow> bool" where
  "isSpace c =
     (c \<in> set [0x0009, 0x000A, 0x000B, 0x000C, 0x000D, 0x0020, 0x00A0, 0x1680,
                0x2028, 0x2029, 0x202F, 0x205F, 0x3000, 0xFEFF]
      \<or> (0x2000 \<le> c \<and> c \<le> 0x200A))"

text \<open>\<open>s.trim()\<close> removes white space at both ends.\<close>

definition trim :: "jsstring \<Rightarrow> jsstring" where
  "trim s = rev (dropWhile isSpace (rev (dropWhile isSpace s)))"

text \<open>
  \<open>s.split('-')\<close>: the pieces between dashes; always at least one piece
  (\<open>''''.split('-')\<close> is \<open>['''']\<close>).
\<close>

fun split_dash :: "jsstring \<Rightarrow> jsstring list" where
  "split_dash [] = [[]]"
| "split_dash (c # cs) =
     (if c = dash then [] # split_dash cs
      else (case split_dash cs of
              [] \<Rightarrow> [[c]]
            | p # ps \<Rightarrow> (c # p) # ps))"

text \<open>\<open>label.split('-')[0].trim()\<close>: always defined.\<close>

definition slotStart :: "jsstring \<Rightarrow> jsstring" where
  "slotStart label = trim (hd (split_dash label))"

text \<open>
  \<open>label.split('-')[1]\<close> followed by \<open>.trim()\<close>: \<open>None\<close> when the label has no dash
  (the element is \<open>undefined\<close>).
\<close>

definition slotEnd :: "jsstring \<Rightarrow> jsstring option" where
  "slotEnd label =
     (case split_dash label of
        _ # e # _ \<Rightarrow> Some (trim e)
      | _ \<Rightarrow> None)"

text \<open>
  The value of a code unit as a digit: \<open>0\<close> to \<open>9\<close>, then the letters of either case
  from ten on; \<open>36\<close> for a code unit that is no digit in any radix.
\<close>

definition digitVal :: "jschar \<Rightarrow> nat" where
  "digitVal c =
     (let n = unat c in
      if 48 \<le> n \<and> n \<le> 57 then n - 48
      else if 97 \<le> n \<and> n \<le> 122 then n - 87
      else if 65 \<le> n \<and> n \<le> 90 then n - 55
      else 36)"

text \<open>
  The number of binary digits of a positive integer.
\<close>

function bitLength :: "int \<Rightarrow> nat" where
  "bitLength n = (if n \<le> 0 then 0 else Suc (bitLength (n div 2)))"
  by pat_completeness auto
termination
  by (relation "measure nat") auto

text \<open>
  The Number value of a non-negative integer: the nearest double, ties to the even
  significand; \<open>None\<close> when rounding leaves the range of the doubles, where the Number
  value is an infinity. Integers below \<open>2^53\<close> are doubles themselves; a larger integer
  of \<open>b\<close> binary digits is rounded to a multiple of \<open>2^(b - 53)\<close>.
\<close>

definition nearestDouble :: "int \<Rightarrow> int option" where
  "nearestDouble m =
     (if m < 2 ^ 53 then Some m
      else let e = bitLength m - 53;
               q = m div 2 ^ e;
               r = m mod 2 ^ e;
               q' = (if 2 * r > 2 ^ e \<or> (2 * r = 2 ^ e \<and> odd q) then q + 1 else q)
           in if q' * 2 ^ e \<ge> 2 ^ 1024 then None else Some (q' * 2 ^ e))"

text \<open>
  \<open>parseInt(s)\<close> with no radix: leading white space is skipped, then an optional sign,
  then an optional \<open>0x\<close> or \<open>0X\<close>, which selects radix 16 instead of 10; the number is
  the longest run of digits of the radix that follows, whatever comes after it, and
  \<open>NaN\<close> when that run is empty. The result is the Number value of the signed integer
  read. All digits are read (the standard allows an engine to take decimal digits after
  the twentieth as zeros).
\<close>

definition parseInt :: "jsstring \<Rightarrow> jsnum" where
  "parseInt s =
     (let t = dropWhile isSpace s;
          neg = (case t of c # _ \<Rightarrow> c = dash | [] \<Rightarrow> False);
          u = (case t of c # r \<Rightarrow> (if c = dash \<or> c = plusSign then r else t) | [] \<Rightarrow> t);
          hex = (take 2 u = utf16 ''0x'' \<or> take 2 u = utf16 ''0X'');
          radix = (if hex then 16 else 10 :: nat);
          v = (if hex then drop 2 u else u);
          ds = takeWhile (\<lambda>c. digitVal c < radix) v
      in if ds = [] then NaN
         else (case nearestDouble (foldl (\<lambda>a c. a * int radix + int (digitVal c)) 0 ds) of
                 None \<Rightarrow> if neg then NegInfinity else PosInfinity
               | Some m \<Rightarrow> Num (if neg then - m else m)))"

section \<open>The constraint index\<close>

text \<open>
  The three \<open>Record\<close>s built from the constraint list. JavaScript object keys are the
  string forms of the numbers used as keys; different integers, \<open>NaN\<close> and the
  infinities have different string forms, so the keys are modelled by the numbers
  themselves. None of these string forms names a property that an object literal
  inherits, so a key that was never written reads as \<open>undefined\<close>.
\<close>

record ConstraintIndex =
  instructorUnavailable :: "int \<rightharpoonup> ClassSlot list"
  roomUnavailable :: "int \<rightharpoonup> ClassSlot list"
  courseConflicts :: "jsnum \<rightharpoonup> jsnum list"

definition emptyIndex :: ConstraintIndex where
  "emptyIndex = \<lparr> instructorUnavailable = Map.empty, roomUnavailable = Map.empty,
                  courseConflicts = Map.empty \<rparr>"

text \<open>\<open>if (!m[k]) m[k] = []; m[k].push(v)\<close>\<close>

definition pushAt :: "('k \<rightharpoonup> 'v list) \<Rightarrow> 'k \<Rightarrow> 'v \<Rightarrow> ('k \<rightharpoonup> 'v list)" where
  "pushAt m k v = m(k \<mapsto> (case m k of None \<Rightarrow> [] | Some vs \<Rightarrow> vs) @ [v])"

text \<open>The reading \<open>m[k] ?? []\<close> of an entry, for statements about the index.\<close>

definition entries :: "('k \<rightharpoonup> 'v list) \<Rightarrow> 'k \<Rightarrow> 'v list" where
  "entries m k = (case m k of None \<Rightarrow> [] | Some vs \<Rightarrow> vs)"

text \<open>One iteration of the loop \<open>for (const constraint of constraints)\<close>.\<close>

definition addConstraint :: "ConstraintIndex \<Rightarrow> Constraint \<Rightarrow> ConstraintIndex" where
  "addConstraint idx c =
     (if con_type c = utf16 ''instructor_unavailable'' then
        idx\<lparr> instructorUnavailable :=
               pushAt (instructorUnavailable idx) (con_entityId c)
                 \<lparr> slot_day = con_day c, slot_timeSlot = con_timeSlot c \<rparr> \<rparr>
      else if con_type c = utf16 ''room_unavailable'' then
        idx\<lparr> roomUnavailable :=
               pushAt (roomUnavailable idx) (con_entityId c)
                 \<lparr> slot_day = con_day c, slot_timeSlot = con_timeSlot c \<rparr> \<rparr>
      else if con_type c = utf16 ''course_conflict'' then
        (let courseId = Num (con_entityId c);
             conflictingCourseId = parseInt (con_timeSlot c)
         in idx\<lparr> courseConflicts :=
                 pushAt (pushAt (courseConflicts idx) courseId conflictingCourseId)
                   conflictingCourseId courseId \<rparr>)
      else idx)"

definition buildIndex :: "Constraint list \<Rightarrow> ConstraintIndex" where
  "buildIndex cs = foldl addConstraint emptyIndex cs"

section \<open>The hidden randomness source\<close>

text \<open>
  The source shuffles with \<open>[...xs].sort(() => Math.random() - 0.5)\<close>. The comparator
  ignores its arguments, so the resulting order depends only on the length of the array
  and on the hidden state of \<open>Math.random\<close>; which order comes out is left to the
  engine's sorting algorithm. The model makes the hidden state explicit: a generator
  state of type \<open>'g\<close> and a function that, for a state and a length \<open>n\<close>, gives the
  order as a list of positions together with the next state. Positions outside the array
  are dropped, so every element of a shuffled list is an element of the original.
\<close>

type_synonym 'g shuffler = "'g \<Rightarrow> nat \<Rightarrow> nat list \<times> 'g"

definition sortRandom :: "'g shuffler \<Rightarrow> 'g \<Rightarrow> 'a list \<Rightarrow> 'a list \<times> 'g" where
  "sortRandom rnd g xs =
     (case rnd g (length xs) of
        (p, g') \<Rightarrow> (map (\<lambda>i. xs ! i) (filter (\<lambda>i. i < length xs) p), g'))"

text \<open>A sort returns a permutation of its array: the orders a real engine can produce.\<close>

definition permuting :: "'g shuffler \<Rightarrow> bool" where
  "permuting rnd = (\<forall>g n. mset (fst (rnd g n)) = mset [0..<n])"

section \<open>The generator\<close>

text \<open>
  The variables the loop body closes over: the imported constants \<open>weekDays\<close> and
  \<open>timeSlots\<close> (from \<open>@shared/schema\<close>, taken as parameters), the randomness source,
  the constraint index, and the fields of the options.
\<close>

record 'g Env =
  env_weekDays :: "jsstring list"
  env_timeSlots :: "jsstring list"
  env_random :: "'g shuffler"
  env_index :: ConstraintIndex
  env_classrooms :: "Classroom list"
  env_timetableId :: int

text \<open>
  The mutable variables of a run: the result array, the three occupancy records, the
  state of \<open>Math.random\<close> and what has been written to the console.
\<close>

record 'g GenState =
  scheduledClasses :: "ScheduledClass list"
  instructorAssignments :: "int \<rightharpoonup> ClassSlot list"
  classroomAssignments :: "int \<rightharpoonup> ClassSlot list"
  courseAssignments :: "int \<rightharpoonup> ClassSlot list"
  rng :: 'g
  console :: "warning list"

definition initState :: "'g \<Rightarrow> 'g GenState" where
  "initState g = \<lparr> scheduledClasses = [], instructorAssignments = Map.empty,
                    classroomAssignments = Map.empty, courseAssignments = Map.empty,
                    rng = g, console = [] \<rparr>"

text \<open>\<open>list?.some(s => s.day === day && s.timeSlot === timeSlot)\<close>\<close>

definition someAt :: "ClassSlot list option \<Rightarrow> jsstring \<Rightarrow> jsstring \<Rightarrow> bool" where
  "someAt l day timeSlot =
     (case l of
        None \<Rightarrow> False
      | Some ss \<Rightarrow> list_ex (\<lambda>s. slot_day s = day \<and> slot_timeSlot s = timeSlot) ss)"

text \<open>
  \<open>courseAssignments[k]\<close> for a key that may be \<open>NaN\<close> or an infinity: course ids
  are integers.
\<close>

definition lookupNum :: "(int \<rightharpoonup> 'v) \<Rightarrow> jsnum \<Rightarrow> 'v option" where
  "lookupNum m k = (case k of Num i \<Rightarrow> m i | _ \<Rightarrow> None)"

definition isSlotAvailable ::
  "ConstraintIndex \<Rightarrow> 'g GenState \<Rightarrow> Course \<Rightarrow> ClassSlot \<Rightarrow> int \<Rightarrow> bool" where
  "isSlotAvailable idx st course slot roomId =
     (let day = slot_day slot;
          timeSlot = slot_timeSlot slot;
          instructorId = course_instructorId course
      in if someAt (instructorUnavailable idx instructorId) day timeSlot then False
         else if someAt (instructorAssignments st instructorId) day timeSlot then False
         else if someAt (roomUnavailable idx roomId) day timeSlot then False
         else if someAt (classroomAssignments st roomId) day timeSlot then False
         else (case courseConflicts idx (Num (course_id course)) of
                 None \<Rightarrow> True
               | Some conflicting \<Rightarrow>
                   \<not> list_ex (\<lambda>conflictingCourseId.
                        someAt (lookupNum (courseAssignments st) conflictingCourseId) day timeSlot)
                      conflicting))"

text \<open>\<open>slotsNeeded = credits >= 4 ? 3 : (credits >= 3 ? 2 : 1)\<close>\<close>

definition slotsNeeded :: "Course \<Rightarrow> nat" where
  "slotsNeeded course =
     (if course_credits course \<ge> 4 then 3 else if course_credits course \<ge> 3 then 2 else 1)"

text \<open>The three \<open>push\<close>es of a placement (\<open>// Update assignments\<close>).\<close>

definition occupy :: "'g GenState \<Rightarrow> Course \<Rightarrow> Classroom \<Rightarrow> ClassSlot \<Rightarrow> 'g GenState" where
  "occupy st course room slot =
     st\<lparr> instructorAssignments :=
           pushAt (instructorAssignments st) (course_instructorId course) slot,
         classroomAssignments := pushAt (classroomAssignments st) (room_id room) slot,
         courseAssignments := pushAt (courseAssignments st) (course_id course) slot \<rparr>"

definition mkRow ::
  "'g Env \<Rightarrow> Course \<Rightarrow> Classroom \<Rightarrow> jsstring \<Rightarrow> jsstring \<Rightarrow> jsstring option \<Rightarrow> ScheduledClass" where
  "mkRow env course room day startTime endTime =
     \<lparr> sc_id = 0, sc_courseId = course_id course,
       sc_instructorId = course_instructorId course, sc_classroomId = room_id room,
       sc_day = day, sc_startTime = startTime, sc_endTime = endTime,
       sc_timetableId = env_timetableId env \<rparr>"

definition pushRow :: "'g GenState \<Rightarrow> ScheduledClass \<Rightarrow> 'g GenState" where
  "pushRow st row = st\<lparr> scheduledClasses := scheduledClasses st @ [row] \<rparr>"

text \<open>
  The commit loop \<open>for (let j = 0; j < slotsNeeded; j++)\<close> of the contiguous phase, over
  the values of \<open>j\<close> still to do. The end time of the last slot is
  \<open>split('-')[1].trim()\<close>, which throws when the label has no dash; the end time of
  every other slot is the start time of the next label.
\<close>

fun commitBlock ::
  "'g Env \<Rightarrow> Course \<Rightarrow> Classroom \<Rightarrow> jsstring \<Rightarrow> nat \<Rightarrow> nat \<Rightarrow> nat list \<Rightarrow> 'g GenState
   \<Rightarrow> thrown + 'g GenState" where
  "commitBlock env course room day startIdx k [] st = Inr st"
| "commitBlock env course room day startIdx k (j # js) st =
     (let label = env_timeSlots env ! (startIdx + j);
          slot = \<lparr> slot_day = day, slot_timeSlot = label \<rparr>;
          st1 = occupy st course room slot;
          startTime = slotStart label;
          endTime = (if j + 1 = k then slotEnd label
                     else Some (slotStart (env_timeSlots env ! (startIdx + j + 1))))
      in case endTime of
           None \<Rightarrow> Inl (TypeError, console st)
         | Some e \<Rightarrow>
             commitBlock env course room day startIdx k js
               (pushRow st1 (mkRow env course room day startTime (Some e))))"

text \<open>
  The check loop \<open>for (let j = 0; j < slotsNeeded; j++)\<close> that computes
  \<open>allAvailable\<close>. Start positions are taken from \<open>slotIndices\<close>, so that
  \<open>startIdx + j\<close> and, inside a block, \<open>startIdx + j + 1\<close> are positions of
  \<open>timeSlots\<close> (lemma \<open>sortRandom_subset\<close>).
\<close>

definition allAvailable ::
  "'g Env \<Rightarrow> 'g GenState \<Rightarrow> Course \<Rightarrow> Classroom \<Rightarrow> jsstring \<Rightarrow> nat \<Rightarrow> nat \<Rightarrow> bool" where
  "allAvailable env st course room day startIdx k =
     list_all (\<lambda>j. isSlotAvailable (env_index env) st course
                     \<lparr> slot_day = day, slot_timeSlot = env_timeSlots env ! (startIdx + j) \<rparr>
                     (room_id room))
       [0..<k]"

text \<open>
  \<open>for (const startIdx of slotIndices)\<close>: the first start position whose block is free
  is committed and sets \<open>assigned\<close>, the second component of the result.
\<close>

fun tryStarts ::
  "'g Env \<Rightarrow> Course \<Rightarrow> Classroom \<Rightarrow> jsstring \<Rightarrow> nat \<Rightarrow> nat list \<Rightarrow> 'g GenState
   \<Rightarrow> thrown + ('g GenState \<times> bool)" where
  "tryStarts env course room day k [] st = Inr (st, False)"
| "tryStarts env course room day k (startIdx # rest) st =
     (if allAvailable env st course room day startIdx k
      then (case commitBlock env course room day startIdx k [0..<k] st of
              Inl e \<Rightarrow> Inl e
            | Inr st' \<Rightarrow> Inr (st', True))
      else tryStarts env course room day k rest st)"

text \<open>
  \<open>for (const day of shuffledDays)\<close>: each day that is reached shuffles the start
  positions \<open>0 .. timeSlots.length - slotsNeeded\<close> (none when the day has fewer slots
  than needed) and stops at the first success.
\<close>

fun tryDays ::
  "'g Env \<Rightarrow> Course \<Rightarrow> Classroom \<Rightarrow> nat \<Rightarrow> jsstring list \<Rightarrow> 'g GenState
   \<Rightarrow> thrown + ('g GenState \<times> bool)" where
  "tryDays env course room k [] st = Inr (st, False)"
| "tryDays env course room k (day # rest) st =
     (case sortRandom (env_random env) (rng st) [0..<length (env_timeSlots env) + 1 - k] of
        (slotIndices, g') \<Rightarrow>
          (case tryStarts env course room day k slotIndices (st\<lparr> rng := g' \<rparr>) of
             Inl e \<Rightarrow> Inl e
           | Inr (st', assigned) \<Rightarrow>
               if assigned then Inr (st', True) else tryDays env course room k rest st'))"

text \<open>\<open>for (const room of suitableRooms)\<close> of the contiguous phase.\<close>

fun tryRooms ::
  "'g Env \<Rightarrow> Course \<Rightarrow> nat \<Rightarrow> jsstring list \<Rightarrow> Classroom list \<Rightarrow> 'g GenState
   \<Rightarrow> thrown + ('g GenState \<times> bool)" where
  "tryRooms env course k shuffledDays [] st = Inr (st, False)"
| "tryRooms env course k shuffledDays (room # rest) st =
     (case tryDays env course room k shuffledDays st of
        Inl e \<Rightarrow> Inl e
      | Inr (st', assigned) \<Rightarrow>
          if assigned then Inr (st', True) else tryRooms env course k shuffledDays rest st')"

text \<open>
  The scattered phase. \<open>for (const slot of shuffledSlots)\<close> for one room, carrying the
  counter \<open>assignedSlots\<close>; a placed slot gives one row whose times are the trimmed
  pieces of the label.
\<close>

fun scatterSlots ::
  "'g Env \<Rightarrow> Course \<Rightarrow> Classroom \<Rightarrow> nat \<Rightarrow> ClassSlot list \<Rightarrow> 'g GenState \<times> nat
   \<Rightarrow> 'g GenState \<times> nat" where
  "scatterSlots env course room k [] (st, assignedSlots) = (st, assignedSlots)"
| "scatterSlots env course room k (slot # rest) (st, assignedSlots) =
     (if assignedSlots \<ge> k then (st, assignedSlots)
      else if isSlotAvailable (env_index env) st course slot (room_id room)
      then scatterSlots env course room k rest
             (pushRow (occupy st course room slot)
                (mkRow env course room (slot_day slot) (slotStart (slot_timeSlot slot))
                   (slotEnd (slot_timeSlot slot))),
              assignedSlots + 1)
      else scatterSlots env course room k rest (st, assignedSlots))"

fun scatterRooms ::
  "'g Env \<Rightarrow> Course \<Rightarrow> nat \<Rightarrow> ClassSlot list \<Rightarrow> Classroom list \<Rightarrow> 'g GenState \<times> nat
   \<Rightarrow> 'g GenState \<times> nat" where
  "scatterRooms env course k shuffledSlots [] (st, assignedSlots) = (st, assignedSlots)"
| "scatterRooms env course k shuffledSlots (room # rest) (st, assignedSlots) =
     (if assignedSlots \<ge> k then (st, assignedSlots)
      else scatterRooms env course k shuffledSlots rest
             (scatterSlots env course room k shuffledSlots (st, assignedSlots)))"

text \<open>\<open>allSlots\<close>: every day with every time slot, days outermost.\<close>

definition allSlots :: "jsstring list \<Rightarrow> jsstring list \<Rightarrow> ClassSlot list" where
  "allSlots weekDays timeSlots =
     concat (map (\<lambda>day. map (\<lambda>timeSlot. \<lparr> slot_day = day, slot_timeSlot = timeSlot \<rparr>)
                          timeSlots) weekDays)"

text \<open>
  \<open>classrooms.filter(room => room.capacity >= course.capacity)
     .sort((a, b) => a.capacity - b.capacity)\<close>; the sort is stable.
\<close>

definition suitableRooms :: "Classroom list \<Rightarrow> Course \<Rightarrow> Classroom list" where
  "suitableRooms rooms course =
     sort_key room_capacity (filter (\<lambda>room. room_capacity room \<ge> course_capacity course) rooms)"

definition warn :: "'g GenState \<Rightarrow> warning \<Rightarrow> 'g GenState" where
  "warn st w = st\<lparr> console := console st @ [w] \<rparr>"

text \<open>
  The body of \<open>for (const course of sortedCourses)\<close>, given the candidate rooms.
\<close>

definition placeCourse ::
  "'g Env \<Rightarrow> Classroom list \<Rightarrow> 'g GenState \<Rightarrow> Course \<Rightarrow> thrown + 'g GenState" where
  "placeCourse env rooms st course =
     (if rooms = [] then Inr (warn st (NoSuitableRooms (course_code course)))
      else
        let k = slotsNeeded course in
        case sortRandom (env_random env) (rng st) (env_weekDays env) of
          (shuffledDays, g1) \<Rightarrow>
            (case tryRooms env course k shuffledDays rooms (st\<lparr> rng := g1 \<rparr>) of
               Inl e \<Rightarrow> Inl e
             | Inr (st2, assigned) \<Rightarrow>
                 if assigned then Inr st2
                 else
                   (case sortRandom (env_random env) (rng st2)
                           (allSlots (env_weekDays env) (env_timeSlots env)) of
                      (shuffledSlots, g3) \<Rightarrow>
                        (case scatterRooms env course k shuffledSlots rooms
                                (st2\<lparr> rng := g3 \<rparr>, 0) of
                           (st4, assignedSlots) \<Rightarrow>
                             if assignedSlots < k
                             then Inr (warn st4
                                         (CouldOnlyAssign assignedSlots k (course_code course)))
                             else Inr st4))))"

definition processCourse :: "'g Env \<Rightarrow> 'g GenState \<Rightarrow> Course \<Rightarrow> thrown + 'g GenState" where
  "processCourse env st course =
     placeCourse env (suitableRooms (env_classrooms env) course) st course"

fun processCourses :: "'g Env \<Rightarrow> Course list \<Rightarrow> 'g GenState \<Rightarrow> thrown + 'g GenState" where
  "processCourses env [] st = Inr st"
| "processCourses env (course # rest) st =
     (case processCourse env st course of
        Inl e \<Rightarrow> Inl e
      | Inr st' \<Rightarrow> processCourses env rest st')"

text \<open>
  The score of the comparator of \<open>sortedCourses\<close>:
  \<open>(courseConflicts[id]?.length || 0) + (instructorUnavailable[instructorId]?.length || 0)\<close>.
  The comparator returns \<open>bConstraints - aConstraints\<close>, so the stable sort is descending
  in the score.
\<close>

definition constraintCount :: "ConstraintIndex \<Rightarrow> Course \<Rightarrow> nat" where
  "constraintCount idx course =
     length (entries (courseConflicts idx) (Num (course_id course)))
     + length (entries (instructorUnavailable idx) (course_instructorId course))"

definition sortedCourses :: "ConstraintIndex \<Rightarrow> Course list \<Rightarrow> Course list" where
  "sortedCourses idx cs = sort_key (\<lambda>course. - int (constraintCount idx course)) cs"

definition mkEnv ::
  "jsstring list \<Rightarrow> jsstring list \<Rightarrow> 'g shuffler \<Rightarrow> TimetableGeneratorOptions \<Rightarrow> 'g Env" where
  "mkEnv weekDays timeSlots rnd options =
     \<lparr> env_weekDays = weekDays, env_timeSlots = timeSlots, env_random = rnd,
       env_index = buildIndex (constraints options),
       env_classrooms = classrooms options,
       env_timetableId = timetableId options \<rparr>"

text \<open>
  The whole run, as the final values of the mutable variables, or the exception that
  rejects the promise. \<open>weekDays\<close> and \<open>timeSlots\<close> are the imported constants, \<open>rnd\<close>
  and \<open>g\<close> the behaviour and the initial state of \<open>Math.random\<close>.
\<close>

definition runGenerator ::
  "jsstring list \<Rightarrow> jsstring list \<Rightarrow> 'g shuffler \<Rightarrow> 'g \<Rightarrow> TimetableGeneratorOptions
   \<Rightarrow> thrown + 'g GenState" where
  "runGenerator weekDays timeSlots rnd g options =
     (let env = mkEnv weekDays timeSlots rnd options
      in processCourses env (sortedCourses (env_index env) (courses options)) (initState g))"

text \<open>What the function returns: \<open>return scheduledClasses\<close>.\<close>

definition generateTimetable ::
  "jsstring list \<Rightarrow> jsstring list \<Rightarrow> 'g shuffler \<Rightarrow> 'g \<Rightarrow> TimetableGeneratorOptions
   \<Rightarrow> error + ScheduledClass list" where
  "generateTimetable weekDays timeSlots rnd g options =
     (case runGenerator weekDays timeSlots rnd g options of
        Inl t \<Rightarrow> Inl (fst t)
      | Inr st \<Rightarrow> Inr (scheduledClasses st))"

text \<open>What the run writes to the console, a side effect that is not part of the result.\<close>

definition consoleOutput ::
  "jsstring list \<Rightarrow> jsstring list \<Rightarrow> 'g shuffler \<Rightarrow> 'g \<Rightarrow> TimetableGeneratorOptions
   \<Rightarrow> warning list" where
  "consoleOutput weekDays timeSlots rnd g options =
     (case runGenerator weekDays timeSlots rnd g options of
        Inl t \<Rightarrow> snd t
      | Inr st \<Rightarrow> console st)"

section \<open>The conflict check\<close>

text \<open>
  An entry of \<open>instructorConflicts\<close> or \<open>classroomConflicts\<close>: the instructor or
  classroom id and the \<open>classes\<close> array.
\<close>

record ConflictEntry =
  conflict_id :: int
  conflict_classes :: "ScheduledClass list"

record ConflictReport =
  instructorConflicts :: "ConflictEntry list"
  classroomConflicts :: "ConflictEntry list"
  studentConflicts :: "ConflictEntry list"

text \<open>
  The key \<open>`${day}-${startTime}-${endTime}`\<close>; an \<open>undefined\<close> end time prints as
  \<open>undefined\<close>. A key holds two dashes at least, so it names no property that an object
  literal inherits.
\<close>

definition slotKey :: "ScheduledClass \<Rightarrow> jsstring" where
  "slotKey r =
     sc_day r @ [dash] @ sc_startTime r @ [dash]
       @ (case sc_endTime r of None \<Rightarrow> utf16 ''undefined'' | Some e \<Rightarrow> e)"

text \<open>
  One iteration of a scanning loop. The nested record \<open>slots[id][key]\<close> is a map from
  the pair of id and key to the array stored there. The pushed entry holds the array
  itself and not a copy, so the model records which array it is, the pair \<open>(id, key)\<close>.
\<close>

definition scanStep ::
  "(ScheduledClass \<Rightarrow> int) \<Rightarrow> ((int \<times> jsstring) \<rightharpoonup> ScheduledClass list) \<times> (int \<times> jsstring) list
   \<Rightarrow> ScheduledClass \<Rightarrow> ((int \<times> jsstring) \<rightharpoonup> ScheduledClass list) \<times> (int \<times> jsstring) list" where
  "scanStep who acc r =
     (case acc of (slots, found) \<Rightarrow>
        let ref = (who r, slotKey r);
            slots' = pushAt slots ref r
        in (slots', if length (entries slots' ref) > 1 then found @ [ref] else found))"

text \<open>
  A whole loop. What the caller reads in \<open>classes\<close> is the content of the array when
  the function returns.
\<close>

definition scanConflicts :: "(ScheduledClass \<Rightarrow> int) \<Rightarrow> ScheduledClass list \<Rightarrow> ConflictEntry list" where
  "scanConflicts who rows =
     (case foldl (scanStep who) (Map.empty, []) rows of
        (slots, found) \<Rightarrow>
          map (\<lambda>ref. \<lparr> conflict_id = fst ref, conflict_classes = entries slots ref \<rparr>) found)"

definition checkConflicts :: "ScheduledClass list \<Rightarrow> ConflictReport" where
  "checkConflicts rows =
     \<lparr> instructorConflicts = scanConflicts sc_instructorId rows,
       classroomConflicts = scanConflicts sc_classroomId rows,
       studentConflicts = [] \<rparr>"

section \<open>The input arrays as mutable objects\<close>

text \<open>
  To state that the inputs are left alone, the arrays are put in a store: an address is
  a position in the list of arrays of its element type, and the options object holds
  addresses. A new array takes the next address. The array operations the generator
  applies to its inputs are modelled with their effect on the store: the spread
  \<open>[...a]\<close> and \<open>a.filter(p)\<close> allocate, \<open>a.sort(cmp)\<close> overwrites the array at the
  address it is called on. The elements are the records themselves; the source never
  assigns to a field of an input object.
\<close>

record Heap =
  courseArrays :: "Course list list"
  instructorArrays :: "Instructor list list"
  classroomArrays :: "Classroom list list"
  constraintArrays :: "Constraint list list"

record OptionRefs =
  ref_courses :: nat
  ref_instructors :: nat
  ref_classrooms :: nat
  ref_constraints :: nat
  ref_timetableId :: int

definition spreadCopy :: "'a list list \<Rightarrow> nat \<Rightarrow> 'a list list \<times> nat" where
  "spreadCopy arrs a = (arrs @ [arrs ! a], length arrs)"

definition filterNew :: "('a \<Rightarrow> bool) \<Rightarrow> 'a list list \<Rightarrow> nat \<Rightarrow> 'a list list \<times> nat" where
  "filterNew p arrs a = (arrs @ [filter p (arrs ! a)], length arrs)"

definition sortInPlace :: "('a \<Rightarrow> int) \<Rightarrow> 'a list list \<Rightarrow> nat \<Rightarrow> 'a list list" where
  "sortInPlace key arrs a = arrs[a := sort_key key (arrs ! a)]"

text \<open>The options a caller sees behind the addresses.\<close>

definition optionsAt :: "Heap \<Rightarrow> OptionRefs \<Rightarrow> TimetableGeneratorOptions" where
  "optionsAt h refs =
     \<lparr> courses = courseArrays h ! ref_courses refs,
       instructors = instructorArrays h ! ref_instructors refs,
       classrooms = classroomArrays h ! ref_classrooms refs,
       constraints = constraintArrays h ! ref_constraints refs,
       timetableId = ref_timetableId refs \<rparr>"

definition validRefs :: "Heap \<Rightarrow> OptionRefs \<Rightarrow> bool" where
  "validRefs h refs \<longleftrightarrow>
     ref_courses refs < length (courseArrays h)
   \<and> ref_instructors refs < length (instructorArrays h)
   \<and> ref_classrooms refs < length (classroomArrays h)
   \<and> ref_constraints refs < length (constraintArrays h)"

text \<open>
  The course loop on the store: \<open>classrooms.filter(...).sort(...)\<close> allocates the array
  of suitable rooms and sorts that array.
\<close>

fun processCoursesH ::
  "'g Env \<Rightarrow> nat \<Rightarrow> Course list \<Rightarrow> Heap \<times> 'g GenState \<Rightarrow> Heap \<times> (thrown + 'g GenState)" where
  "processCoursesH env roomsRef [] (h, st) = (h, Inr st)"
| "processCoursesH env roomsRef (course # rest) (h, st) =
     (case filterNew (\<lambda>room. room_capacity room \<ge> course_capacity course)
             (classroomArrays h) roomsRef of
        (arrs1, b) \<Rightarrow>
          let arrs2 = sortInPlace room_capacity arrs1 b;
              h' = h\<lparr> classroomArrays := arrs2 \<rparr>
          in case placeCourse env (arrs2 ! b) st course of
               Inl e \<Rightarrow> (h', Inl e)
             | Inr st' \<Rightarrow> processCoursesH env roomsRef rest (h', st'))"

text \<open>
  The run on the store: \<open>[...courses].sort(...)\<close> allocates a copy of the courses and
  sorts the copy; the loop then goes through the copy.
\<close>

definition runGeneratorH ::
  "jsstring list \<Rightarrow> jsstring list \<Rightarrow> 'g shuffler \<Rightarrow> 'g \<Rightarrow> Heap \<Rightarrow> OptionRefs
   \<Rightarrow> Heap \<times> (thrown + 'g GenState)" where
  "runGeneratorH weekDays timeSlots rnd g h refs =
     (let env = mkEnv weekDays timeSlots rnd (optionsAt h refs)
      in case spreadCopy (courseArrays h) (ref_courses refs) of
           (arrs1, a) \<Rightarrow>
             let arrs2 = sortInPlace (\<lambda>course. - int (constraintCount (env_index env) course))
                           arrs1 a;
                 h1 = h\<lparr> courseArrays := arrs2 \<rparr>
             in processCoursesH env (ref_classrooms refs) (arrs2 ! a) (h1, initState g))"

section \<open>Vocabulary of the statements\<close>

text \<open>
  A placement, as both phases perform it: the three pushes onto the occupancy records and
  the push of one row whose day is the slot's day and whose start time is the trimmed
  first piece of the slot's label.
\<close>

definition place ::
  "'g Env \<Rightarrow> Course \<Rightarrow> Classroom \<Rightarrow> ClassSlot \<Rightarrow> jsstring option \<Rightarrow> 'g GenState \<Rightarrow> 'g GenState" where
  "place env course room slot e st =
     pushRow (occupy st course room slot)
       (mkRow env course room (slot_day slot) (slotStart (slot_timeSlot slot)) e)"

text \<open>
  The end time a placement writes into its row: the end of the slot's own label, or, for
  a slot inside a block, the start of the next configured label.
\<close>

definition endsAt :: "jsstring list \<Rightarrow> jsstring \<Rightarrow> jsstring option \<Rightarrow> bool" where
  "endsAt ts label e \<longleftrightarrow>
     e = slotEnd label
   \<or> (\<exists>i. i + 1 < length ts \<and> label = ts ! i \<and> e = Some (slotStart (ts ! (i + 1))))"

text \<open>
  A property of the state is preserved by a run when it survives every placement of a
  slot that \<open>isSlotAvailable\<close> accepts, every draw from the randomness source and
  every warning.
\<close>

definition preserved :: "'g Env \<Rightarrow> ('g GenState \<Rightarrow> bool) \<Rightarrow> bool" where
  "preserved env P \<longleftrightarrow>
     (\<forall>st course room slot e.
        P st \<longrightarrow> isSlotAvailable (env_index env) st course slot (room_id room) \<longrightarrow>
        slot_timeSlot slot \<in> set (env_timeSlots env) \<longrightarrow>
        endsAt (env_timeSlots env) (slot_timeSlot slot) e \<longrightarrow>
        P (place env course room slot e st))
   \<and> (\<forall>st g. P st \<longrightarrow> P (st\<lparr> rng := g \<rparr>))
   \<and> (\<forall>st w. P st \<longrightarrow> P (warn st w))"

text \<open>The cell of the weekly grid that a row, respectively an occupied slot, stands in.\<close>

definition rowCell :: "ScheduledClass \<Rightarrow> jsstring \<times> jsstring" where
  "rowCell r = (sc_day r, sc_startTime r)"

definition cellOf :: "ClassSlot \<Rightarrow> jsstring \<times> jsstring" where
  "cellOf s = (slot_day s, slotStart (slot_timeSlot s))"

text \<open>
  The booking invariant: every row is backed by an occupied slot of its instructor and
  of its classroom, occupied slots carry configured labels, no instructor and no
  classroom occupies a slot twice, and no two rows of one instructor or of one classroom
  stand in the same cell.
\<close>

definition booked :: "jsstring list \<Rightarrow> 'g GenState \<Rightarrow> bool" where
  "booked ts st \<longleftrightarrow>
     (\<forall>r \<in> set (scheduledClasses st).
        rowCell r \<in> cellOf ` set (entries (instructorAssignments st) (sc_instructorId r))
      \<and> rowCell r \<in> cellOf ` set (entries (classroomAssignments st) (sc_classroomId r)))
   \<and> (\<forall>i. \<forall>s \<in> set (entries (instructorAssignments st) i). slot_timeSlot s \<in> set ts)
   \<and> (\<forall>i. \<forall>s \<in> set (entries (classroomAssignments st) i). slot_timeSlot s \<in> set ts)
   \<and> (\<forall>i. distinct (entries (instructorAssignments st) i))
   \<and> (\<forall>i. distinct (entries (classroomAssignments st) i))
   \<and> distinct (map (\<lambda>r. (sc_instructorId r, rowCell r)) (scheduledClasses st))
   \<and> distinct (map (\<lambda>r. (sc_classroomId r, rowCell r)) (scheduledClasses st))"

text \<open>
  Row \<open>j\<close> of a committed block of \<open>k\<close> slots starting at position \<open>startIdx\<close>.
\<close>

definition blockRow ::
  "'g Env \<Rightarrow> Course \<Rightarrow> Classroom \<Rightarrow> jsstring \<Rightarrow> nat \<Rightarrow> nat \<Rightarrow> nat \<Rightarrow> ScheduledClass" where
  "blockRow env course room day startIdx k j =
     mkRow env course room day (slotStart (env_timeSlots env ! (startIdx + j)))
       (if j + 1 = k then slotEnd (env_timeSlots env ! (startIdx + j))
        else Some (slotStart (env_timeSlots env ! (startIdx + j + 1))))"

text \<open>A step appends the rows \<open>new\<close>, all of them rows of the course.\<close>

definition appended :: "'g GenState \<Rightarrow> 'g GenState \<Rightarrow> Course \<Rightarrow> ScheduledClass list \<Rightarrow> bool" where
  "appended st st' course new \<longleftrightarrow>
     scheduledClasses st' = scheduledClasses st @ new
   \<and> list_all (\<lambda>r. sc_courseId r = course_id course) new"

text \<open>The number of rows that carry a course id.\<close>

definition rowsFor :: "int \<Rightarrow> ScheduledClass list \<Rightarrow> nat" where
  "rowsFor cid rows = length (filter (\<lambda>r. sc_courseId r = cid) rows)"

text \<open>
  The warning the course loop writes for a course that ends with \<open>achieved\<close> rows, and
  the course code a warning names.
\<close>

definition warningFor :: "Classroom list \<Rightarrow> Course \<Rightarrow> nat \<Rightarrow> warning" where
  "warningFor rooms course achieved =
     (if suitableRooms rooms course = [] then NoSuitableRooms (course_code course)
      else CouldOnlyAssign achieved (slotsNeeded course) (course_code course))"


text \<open>A state in which nothing is occupied yet.\<close>

definition vacant :: "'g GenState \<Rightarrow> bool" where
  "vacant st \<longleftrightarrow> instructorAssignments st = Map.empty \<and> classroomAssignments st = Map.empty
     \<and> courseAssignments st = Map.empty"

text \<open>The index is symmetric: it lists \<open>b\<close> for \<open>a\<close> exactly when it lists \<open>a\<close> for \<open>b\<close>.\<close>

definition symmetricIndex :: "ConstraintIndex \<Rightarrow> bool" where
  "symmetricIndex idx \<longleftrightarrow>
     (\<forall>a b. b \<in> set (entries (courseConflicts idx) a) \<longleftrightarrow> a \<in> set (entries (courseConflicts idx) b))"

text \<open>
  The exclusion invariant: every row is backed by an occupied slot of its course with a
  configured label, and two different courses that the index lists as conflicting
  occupy no slot in common.
\<close>

definition exclusive :: "ConstraintIndex \<Rightarrow> jsstring list \<Rightarrow> 'g GenState \<Rightarrow> bool" where
  "exclusive idx ts st \<longleftrightarrow>
     (\<forall>r \<in> set (scheduledClasses st).
        rowCell r \<in> cellOf ` set (entries (courseAssignments st) (sc_courseId r)))
   \<and> (\<forall>a. \<forall>s \<in> set (entries (courseAssignments st) a). slot_timeSlot s \<in> set ts)
   \<and> (\<forall>a b. a \<noteq> b \<longrightarrow> Num b \<in> set (entries (courseConflicts idx) (Num a)) \<longrightarrow>
          set (entries (courseAssignments st) a) \<inter> set (entries (courseAssignments st) b) = {})"





text \<open>
  Grouping as the spec words it: rows are in one group when they have the same
  instructor (or classroom) and the same day, start time and end time. Every row that
  has an earlier row in its group is reported with its whole group.
\<close>

definition sameTime :: "ScheduledClass \<Rightarrow> ScheduledClass \<Rightarrow> bool" where
  "sameTime r r' \<longleftrightarrow>
     sc_day r = sc_day r' \<and> sc_startTime r = sc_startTime r' \<and> sc_endTime r = sc_endTime r'"

fun repeatedBy :: "('a \<Rightarrow> 'a \<Rightarrow> bool) \<Rightarrow> 'a list \<Rightarrow> 'a list \<Rightarrow> 'a list" where
  "repeatedBy same seen [] = []"
| "repeatedBy same seen (r # rs) =
     (if list_ex (\<lambda>r'. same r' r) seen then [r] else []) @ repeatedBy same (seen @ [r]) rs"

definition conflictsBy ::
  "(ScheduledClass \<Rightarrow> ScheduledClass \<Rightarrow> bool) \<Rightarrow> (ScheduledClass \<Rightarrow> int) \<Rightarrow> ScheduledClass list
   \<Rightarrow> ConflictEntry list" where
  "conflictsBy same who rows =
     map (\<lambda>r. \<lparr> conflict_id = who r, conflict_classes = filter (\<lambda>r'. same r' r) rows \<rparr>)
       (repeatedBy same [] rows)"

definition groupedByTuple :: "(ScheduledClass \<Rightarrow> int) \<Rightarrow> ScheduledClass list \<Rightarrow> ConflictEntry list" where
  "groupedByTuple who rows = conflictsBy (\<lambda>r' r. who r' = who r \<and> sameTime r' r) who rows"

text \<open>
  Grouping by the key string: rows are in one group when they have the same instructor
  (or classroom) and their day, start time and end time join to the same string.
\<close>

definition groupedByKey :: "(ScheduledClass \<Rightarrow> int) \<Rightarrow> ScheduledClass list \<Rightarrow> ConflictEntry list" where
  "groupedByKey who rows = conflictsBy (\<lambda>r' r. who r' = who r \<and> slotKey r' = slotKey r) who rows"

text \<open>A row whose day and start time contain no dash and whose end time is a string.\<close>

definition plainRow :: "ScheduledClass \<Rightarrow> bool" where
  "plainRow r \<longleftrightarrow>
     dash \<notin> set (sc_day r) \<and> dash \<notin> set (sc_startTime r) \<and> sc_endTime r \<noteq> None"

text \<open>Every array of the first store is still there, with the same content.\<close>

definition keeps :: "Heap \<Rightarrow> Heap \<Rightarrow> bool" where
  "keeps h h' \<longleftrightarrow>
     take (length (courseArrays h)) (courseArrays h') = courseArrays h
   \<and> take (length (classroomArrays h)) (classroomArrays h') = classroomArrays h
   \<and> instructorArrays h' = instructorArrays h
   \<and> constraintArrays h' = constraintArrays h"

text \<open>
  A reading \<open>clock\<close> of time strings as numbers under which the configured labels are
  consecutive, non-overlapping intervals: every label ends after it starts and no later
  than the next label starts.
\<close>

fun chronological :: "(jsstring \<Rightarrow> int) \<Rightarrow> jsstring list \<Rightarrow> bool" where
  "chronological clock [] = True"
| "chronological clock [l] =
     (case slotEnd l of None \<Rightarrow> False | Some e \<Rightarrow> clock (slotStart l) < clock e)"
| "chronological clock (l # l' # ls) =
     ((case slotEnd l of
         None \<Rightarrow> False
       | Some e \<Rightarrow> clock (slotStart l) < clock e \<and> clock e \<le> clock (slotStart l'))
      \<and> chronological clock (l' # ls))"

text \<open>Two rows overlap when each starts before the other ends.\<close>

definition overlap :: "(jsstring \<Rightarrow> int) \<Rightarrow> ScheduledClass \<Rightarrow> ScheduledClass \<Rightarrow> bool" where
  "overlap clock r r' \<longleftrightarrow>
     (\<exists>e e'. sc_endTime r = Some e \<and> sc_endTime r' = Some e'
        \<and> clock (sc_startTime r) < clock e' \<and> clock (sc_startTime r') < clock e)"

text \<open>Every row starts at the start of a configured label and ends as \<open>endsAt\<close> says.\<close>

definition timed :: "jsstring list \<Rightarrow> 'g GenState \<Rightarrow> bool" where
  "timed ts st \<longleftrightarrow>
     (\<forall>r \<in> set (scheduledClasses st).
        \<exists>i<length ts. sc_startTime r = slotStart (ts ! i) \<and> endsAt ts (ts ! i) (sc_endTime r))"


text \<open>
  Labels that are pairwise non-overlapping, in whatever order they are listed: under the
  reading \<open>clock\<close>, every label ends after it starts, and of any two labels one ends
  no later than the other starts.
\<close>

definition apart :: "(jsstring \<Rightarrow> int) \<Rightarrow> jsstring \<Rightarrow> jsstring \<Rightarrow> bool" where
  "apart clock l l' \<longleftrightarrow>
     (case (slotEnd l, slotEnd l') of
        (Some e, Some e') \<Rightarrow> clock e \<le> clock (slotStart l') \<or> clock e' \<le> clock (slotStart l)
      | _ \<Rightarrow> False)"

definition disjointLabels :: "(jsstring \<Rightarrow> int) \<Rightarrow> jsstring list \<Rightarrow> bool" where
  "disjointLabels clock ts \<longleftrightarrow>
     list_all (\<lambda>l. case slotEnd l of None \<Rightarrow> False | Some e \<Rightarrow> clock (slotStart l) < clock e) ts
   \<and> list_all (\<lambda>i. list_all (\<lambda>j. i = j \<or> apart clock (ts ! i) (ts ! j)) [0..<length ts])
        [0..<length ts]"



section \<open>Scenarios\<close>

text \<open>
  A two-day, two-slot grid, a randomness source that alternates between keeping and
  reversing the order, two courses of one instructor that are declared in conflict, and
  one room.
\<close>

definition wdW :: "jsstring list" where
  "wdW = map utf16 [''Mon'', ''Tue'']"

definition tsW :: "jsstring list" where
  "tsW = map utf16 [''09:00-10:00'', ''10:00-11:00'']"

definition flipShuffle :: "nat shuffler" where
  "flipShuffle g n = (if even g then [0..<n] else rev [0..<n], Suc g)"

definition courseA :: Course where
  "courseA = \<lparr> course_id = 1, course_code = utf16 ''CS101'', course_credits = 3,
               course_capacity = 30, course_instructorId = 7, course_departmentId = 1 \<rparr>"

definition courseB :: Course where
  "courseB = \<lparr> course_id = 2, course_code = utf16 ''CS202'', course_credits = 4,
               course_capacity = 25, course_instructorId = 7, course_departmentId = 1 \<rparr>"

definition roomR :: Classroom where
  "roomR = \<lparr> room_id = 5, room_capacity = 40 \<rparr>"

definition conflictAB :: Constraint where
  "conflictAB = \<lparr> con_type = utf16 ''course_conflict'', con_entityId = 1, con_day = [],
                  con_timeSlot = utf16 ''2'' \<rparr>"

definition optionsW :: TimetableGeneratorOptions where
  "optionsW = \<lparr> courses = [courseA, courseB], instructors = [], classrooms = [roomR],
                constraints = [conflictAB], timetableId = 9 \<rparr>"

text \<open>
  A row of the scenarios: instructor 7, room 5, timetable 9, and the day and the two
  times given as literals.
\<close>

definition rowW :: "int \<Rightarrow> string \<Rightarrow> string \<Rightarrow> string \<Rightarrow> ScheduledClass" where
  "rowW c d s e = \<lparr> sc_id = 0, sc_courseId = c, sc_instructorId = 7, sc_classroomId = 5,
                    sc_day = utf16 d, sc_startTime = utf16 s, sc_endTime = Some (utf16 e),
                    sc_timetableId = 9 \<rparr>"

text \<open>One course and no classroom at all; and no course at all.\<close>

definition optionsNoRoom :: TimetableGeneratorOptions where
  "optionsNoRoom = \<lparr> courses = [courseA], instructors = [], classrooms = [],
                     constraints = [], timetableId = 9 \<rparr>"

definition optionsNoCourse :: TimetableGeneratorOptions where
  "optionsNoCourse = \<lparr> courses = [], instructors = [], classrooms = [],
                       constraints = [], timetableId = 9 \<rparr>"

text \<open>
  The scenario of the spec: a grid of five days and four slots, one course of three
  credits, one instructor, one room that is large enough, no constraint.
\<close>

definition wd5 :: "jsstring list" where
  "wd5 = map utf16 [''Monday'', ''Tuesday'', ''Wednesday'', ''Thursday'', ''Friday'']"

definition ts4 :: "jsstring list" where
  "ts4 = map utf16 [''09:00-10:00'', ''10:00-11:00'', ''11:00-12:00'', ''12:00-13:00'']"

definition optionsOne :: TimetableGeneratorOptions where
  "optionsOne = \<lparr> courses = [courseA], instructors = [\<lparr> instructor_id = 7 \<rparr>],
                  classrooms = [roomR], constraints = [], timetableId = 9 \<rparr>"

text \<open>The environment of the two-day scenario.\<close>

definition envW :: "nat Env" where
  "envW = mkEnv wdW tsW flipShuffle optionsW"




text \<open>Two rows of one instructor in one room at the same time.\<close>

definition clashRows :: "ScheduledClass list" where
  "clashRows = [rowW 1 ''Mon'' ''09:00'' ''10:00'', rowW 2 ''Mon'' ''09:00'' ''10:00'']"

text \<open>
  A store with the inputs in an order that both sorts change: the second course has
  the higher constraint count, the first room is the larger one.
\<close>

definition roomBig :: Classroom where
  "roomBig = \<lparr> room_id = 6, room_capacity = 100 \<rparr>"

definition conflictBB :: Constraint where
  "conflictBB = \<lparr> con_type = utf16 ''course_conflict'', con_entityId = 2, con_day = [],
                  con_timeSlot = utf16 ''2'' \<rparr>"

definition heapW :: Heap where
  "heapW = \<lparr> courseArrays = [[courseA, courseB]], instructorArrays = [[]],
             classroomArrays = [[roomBig, roomR]], constraintArrays = [[conflictBB]] \<rparr>"

definition refsW :: OptionRefs where
  "refsW = \<lparr> ref_courses = 0, ref_instructors = 0, ref_classrooms = 0, ref_constraints = 0,
             ref_timetableId = 9 \<rparr>"

text \<open>A reading of time strings for the scenarios: the leading number, the hour.\<close>

definition hourOf :: "jsstring \<Rightarrow> int" where
  "hourOf s = (case parseInt s of Num n \<Rightarrow> n | _ \<Rightarrow> 0)"


text \<open>
  Labels that are pairwise non-overlapping but not listed in the order of the clock,
  and one course of four credits.
\<close>

definition tsU :: "jsstring list" where
  "tsU = map utf16 [''09:00-10:00'', ''13:00-14:00'', ''10:00-11:00'']"

definition courseU :: Course where
  "courseU = \<lparr> course_id = 3, course_code = utf16 ''CS303'', course_credits = 4,
               course_capacity = 30, course_instructorId = 7, course_departmentId = 1 \<rparr>"

definition optionsU :: TimetableGeneratorOptions where
  "optionsU = \<lparr> courses = [courseU], instructors = [], classrooms = [roomR],
                constraints = [], timetableId = 9 \<rparr>"

text \<open>Two course records with the same id, each of one slot.\<close>

definition courseD :: Course where
  "courseD = \<lparr> course_id = 1, course_code = utf16 ''CS101'', course_credits = 2,
               course_capacity = 30, course_instructorId = 7, course_departmentId = 1 \<rparr>"

definition courseD' :: Course where
  "courseD' = \<lparr> course_id = 1, course_code = utf16 ''CS102'', course_credits = 2,
                course_capacity = 30, course_instructorId = 7, course_departmentId = 1 \<rparr>"

definition optionsDup :: TimetableGeneratorOptions where
  "optionsDup = \<lparr> courses = [courseD, courseD'], instructors = [], classrooms = [roomR],
                  constraints = [], timetableId = 9 \<rparr>"

text \<open>
  Two rows of one instructor whose days and start times differ and whose keys are the
  same string, \<open>Mon-Wed-09:00-10:00\<close>.
\<close>

definition dashRows :: "ScheduledClass list" where
  "dashRows = [rowW 1 ''Mon-Wed'' ''09:00'' ''10:00'', rowW 2 ''Mon'' ''Wed-09:00'' ''10:00'']"
section \<open>Basic facts\<close>

lemma type_names [simp]:
  "utf16 ''course_conflict'' \<noteq> utf16 ''instructor_unavailable''"
  "utf16 ''course_conflict'' \<noteq> utf16 ''room_unavailable''"
  "utf16 ''instructor_unavailable'' \<noteq> utf16 ''room_unavailable''"
  "utf16 ''instructor_unavailable'' \<noteq> utf16 ''course_conflict''"
  "utf16 ''room_unavailable'' \<noteq> utf16 ''course_conflict''"
  "utf16 ''room_unavailable'' \<noteq> utf16 ''instructor_unavailable''"
  by (simp_all add: utf16_def)

lemma split_dash_nonempty: "split_dash s \<noteq> []"
  by (induction s) (auto split: list.splits)

lemma entries_pushAt:
  "entries (pushAt m k v) k' = (if k' = k then entries m k @ [v] else entries m k')"
  by (simp add: entries_def pushAt_def)

lemma slot_eq_iff:
  "(a :: ClassSlot) = b \<longleftrightarrow> slot_day a = slot_day b \<and> slot_timeSlot a = slot_timeSlot b"
  by (cases a, cases b) simp

lemma someAt_iff:
  "someAt (m k) (slot_day s) (slot_timeSlot s) \<longleftrightarrow> s \<in> set (entries m k)"
proof -
  have "(\<lambda>x. slot_day x = slot_day s \<and> slot_timeSlot x = slot_timeSlot s) = (\<lambda>x. x = s)"
    by (auto simp: fun_eq_iff slot_eq_iff)
  then show ?thesis
    by (cases "m k") (simp_all add: someAt_def entries_def list_ex_iff)
qed

lemma place_fields:
  "scheduledClasses (place env course room slot e st) =
     scheduledClasses st @ [mkRow env course room (slot_day slot) (slotStart (slot_timeSlot slot)) e]"
  "instructorAssignments (place env course room slot e st) =
     pushAt (instructorAssignments st) (course_instructorId course) slot"
  "classroomAssignments (place env course room slot e st) =
     pushAt (classroomAssignments st) (room_id room) slot"
  "courseAssignments (place env course room slot e st) =
     pushAt (courseAssignments st) (course_id course) slot"
  "rng (place env course room slot e st) = rng st"
  "console (place env course room slot e st) = console st"
  by (simp_all add: place_def pushRow_def occupy_def)

lemma commitBlock_Cons:
  "commitBlock env course room day startIdx k (j # js) st =
     (case (if j + 1 = k then slotEnd (env_timeSlots env ! (startIdx + j))
            else Some (slotStart (env_timeSlots env ! (startIdx + j + 1)))) of
        None \<Rightarrow> Inl (TypeError, console st)
      | Some e \<Rightarrow>
          commitBlock env course room day startIdx k js
            (place env course room
               \<lparr> slot_day = day, slot_timeSlot = env_timeSlots env ! (startIdx + j) \<rparr>
               (Some e) st))"
  by (simp add: place_def Let_def split: option.splits)

lemma scatterSlots_Cons:
  "scatterSlots env course room k (slot # rest) (st, a) =
     (if a \<ge> k then (st, a)
      else if isSlotAvailable (env_index env) st course slot (room_id room)
      then scatterSlots env course room k rest
             (place env course room slot (slotEnd (slot_timeSlot slot)) st, a + 1)
      else scatterSlots env course room k rest (st, a))"
  by (simp add: place_def)

lemma someAt_None [simp]: "someAt None d t = False"
  by (simp add: someAt_def)

lemma isSlotAvailable_iff:
  "isSlotAvailable idx st course slot roomId \<longleftrightarrow>
     \<not> someAt (instructorUnavailable idx (course_instructorId course)) (slot_day slot) (slot_timeSlot slot)
   \<and> \<not> someAt (instructorAssignments st (course_instructorId course)) (slot_day slot) (slot_timeSlot slot)
   \<and> \<not> someAt (roomUnavailable idx roomId) (slot_day slot) (slot_timeSlot slot)
   \<and> \<not> someAt (classroomAssignments st roomId) (slot_day slot) (slot_timeSlot slot)
   \<and> (\<forall>c \<in> set (entries (courseConflicts idx) (Num (course_id course))).
         \<not> someAt (lookupNum (courseAssignments st) c) (slot_day slot) (slot_timeSlot slot))"
  by (cases "courseConflicts idx (Num (course_id course))")
     (auto simp: isSlotAvailable_def Let_def entries_def list_ex_iff)

lemma isSlotAvailable_free:
  assumes "isSlotAvailable idx st course slot roomId"
  shows "slot \<notin> set (entries (instructorAssignments st) (course_instructorId course))"
    and "slot \<notin> set (entries (classroomAssignments st) roomId)"
  using assms by (auto simp: isSlotAvailable_iff someAt_iff)

lemma someAt_pushAt:
  "someAt (pushAt m k v k') d t \<longleftrightarrow>
     someAt (m k') d t \<or> (k' = k \<and> slot_day v = d \<and> slot_timeSlot v = t)"
  by (auto simp: someAt_def pushAt_def split: option.splits)

lemma lookupNum_pushAt:
  "someAt (lookupNum (pushAt m k v) n) d t \<longleftrightarrow>
     someAt (lookupNum m n) d t \<or> (n = Num k \<and> slot_day v = d \<and> slot_timeSlot v = t)"
  by (cases n) (auto simp: lookupNum_def someAt_pushAt)

lemma isSlotAvailable_place:
  assumes "isSlotAvailable idx st course slot' roomId" and "slot' \<noteq> slot"
  shows "isSlotAvailable idx (place env course' room' slot e st) course slot' roomId"
proof -
  from assms(2) have "\<not> (slot_day slot = slot_day slot' \<and> slot_timeSlot slot = slot_timeSlot slot')"
    by (auto simp: slot_eq_iff)
  with assms(1) show ?thesis
    by (auto simp: isSlotAvailable_iff place_fields someAt_pushAt lookupNum_pushAt)
qed

lemma isSlotAvailable_rng [simp]:
  "isSlotAvailable idx (st\<lparr> rng := g \<rparr>) course slot roomId =
   isSlotAvailable idx st course slot roomId"
  by (simp add: isSlotAvailable_iff)

lemma allAvailable_rng [simp]:
  "allAvailable env (st\<lparr> rng := g \<rparr>) course room day startIdx k =
   allAvailable env st course room day startIdx k"
  by (simp add: allAvailable_def)

lemma sortRandom_subset: "sortRandom rnd g xs = (ys, g') \<Longrightarrow> set ys \<subseteq> set xs"
  by (auto simp: sortRandom_def split: prod.splits)

lemma allSlots_mem:
  "s \<in> set (allSlots wd ts) \<longleftrightarrow> slot_day s \<in> set wd \<and> slot_timeSlot s \<in> set ts"
  by (auto simp: allSlots_def slot_eq_iff image_iff)

lemma mkRow_fields:
  "sc_courseId (mkRow env course room d s e) = course_id course"
  "sc_instructorId (mkRow env course room d s e) = course_instructorId course"
  "sc_classroomId (mkRow env course room d s e) = room_id room"
  "sc_day (mkRow env course room d s e) = d"
  "sc_startTime (mkRow env course room d s e) = s"
  "sc_endTime (mkRow env course room d s e) = e"
  "sc_id (mkRow env course room d s e) = 0"
  "sc_timetableId (mkRow env course room d s e) = env_timetableId env"
  by (simp_all add: mkRow_def)

lemma cellOf_inj:
  assumes "distinct (map slotStart ts)" "slot_timeSlot s \<in> set ts" "slot_timeSlot s' \<in> set ts"
    and "cellOf s = cellOf s'"
  shows "s = s'"
proof -
  have "inj_on slotStart (set ts)" using assms(1) by (simp add: distinct_map)
  with assms have "slot_timeSlot s = slot_timeSlot s'"
    by (auto simp: cellOf_def dest: inj_onD)
  with assms(4) show ?thesis by (simp add: cellOf_def)
qed

lemma booked_place:
  assumes b: "booked ts st" and d: "distinct (map slotStart ts)"
    and l: "slot_timeSlot slot \<in> set ts"
    and fi: "slot \<notin> set (entries (instructorAssignments st) (course_instructorId course))"
    and fr: "slot \<notin> set (entries (classroomAssignments st) (room_id room))"
  shows "booked ts (place env course room slot e st)"
proof -
  let ?r = "mkRow env course room (slot_day slot) (slotStart (slot_timeSlot slot)) e"
  have rc: "rowCell ?r = cellOf slot" by (simp add: rowCell_def cellOf_def mkRow_fields)
  have ni: "(sc_instructorId ?r, rowCell ?r) \<notin> (\<lambda>r. (sc_instructorId r, rowCell r)) ` set (scheduledClasses st)"
  proof
    assume "(sc_instructorId ?r, rowCell ?r) \<in> (\<lambda>r. (sc_instructorId r, rowCell r)) ` set (scheduledClasses st)"
    then obtain r where r: "r \<in> set (scheduledClasses st)" "sc_instructorId r = course_instructorId course"
      "rowCell r = cellOf slot" using rc by (auto simp: mkRow_fields)
    with b obtain s where s: "s \<in> set (entries (instructorAssignments st) (course_instructorId course))"
      "cellOf s = cellOf slot" unfolding booked_def by force
    with b have "slot_timeSlot s \<in> set ts" unfolding booked_def by blast
    with cellOf_inj[OF d _ l s(2)] have "s = slot" by simp
    with s fi show False by simp
  qed
  have nr: "(sc_classroomId ?r, rowCell ?r) \<notin> (\<lambda>r. (sc_classroomId r, rowCell r)) ` set (scheduledClasses st)"
  proof
    assume "(sc_classroomId ?r, rowCell ?r) \<in> (\<lambda>r. (sc_classroomId r, rowCell r)) ` set (scheduledClasses st)"
    then obtain r where r: "r \<in> set (scheduledClasses st)" "sc_classroomId r = room_id room"
      "rowCell r = cellOf slot" using rc by (auto simp: mkRow_fields)
    with b obtain s where s: "s \<in> set (entries (classroomAssignments st) (room_id room))"
      "cellOf s = cellOf slot" unfolding booked_def by force
    with b have "slot_timeSlot s \<in> set ts" unfolding booked_def by blast
    with cellOf_inj[OF d _ l s(2)] have "s = slot" by simp
    with s fr show False by simp
  qed
  from b have b1: "\<forall>r \<in> set (scheduledClasses st).
        rowCell r \<in> cellOf ` set (entries (instructorAssignments st) (sc_instructorId r))
      \<and> rowCell r \<in> cellOf ` set (entries (classroomAssignments st) (sc_classroomId r))"
    and b2: "\<forall>i. \<forall>s \<in> set (entries (instructorAssignments st) i). slot_timeSlot s \<in> set ts"
    and b3: "\<forall>i. \<forall>s \<in> set (entries (classroomAssignments st) i). slot_timeSlot s \<in> set ts"
    and b4: "\<forall>i. distinct (entries (instructorAssignments st) i)"
    and b5: "\<forall>i. distinct (entries (classroomAssignments st) i)"
    and b6: "distinct (map (\<lambda>r. (sc_instructorId r, rowCell r)) (scheduledClasses st))"
    and b7: "distinct (map (\<lambda>r. (sc_classroomId r, rowCell r)) (scheduledClasses st))"
    unfolding booked_def by blast+
  show ?thesis
    unfolding booked_def place_fields
  proof (intro conjI)
    show "\<forall>r\<in>set (scheduledClasses st @ [?r]).
       rowCell r \<in> cellOf ` set (entries (pushAt (instructorAssignments st) (course_instructorId course) slot) (sc_instructorId r)) \<and>
       rowCell r \<in> cellOf ` set (entries (pushAt (classroomAssignments st) (room_id room) slot) (sc_classroomId r))"
    proof
      fix r assume "r \<in> set (scheduledClasses st @ [?r])"
      then consider "r \<in> set (scheduledClasses st)" | "r = ?r" by auto
      then show "rowCell r \<in> cellOf ` set (entries (pushAt (instructorAssignments st) (course_instructorId course) slot) (sc_instructorId r)) \<and>
       rowCell r \<in> cellOf ` set (entries (pushAt (classroomAssignments st) (room_id room) slot) (sc_classroomId r))"
      proof cases
        case 1
        with b1 have "rowCell r \<in> cellOf ` set (entries (instructorAssignments st) (sc_instructorId r))"
          "rowCell r \<in> cellOf ` set (entries (classroomAssignments st) (sc_classroomId r))"
          by blast+
        then show ?thesis by (auto simp: entries_pushAt)
      next
        case 2
        with rc show ?thesis by (simp add: entries_pushAt mkRow_fields)
      qed
    qed
    show "\<forall>i. \<forall>s\<in>set (entries (pushAt (instructorAssignments st) (course_instructorId course) slot) i). slot_timeSlot s \<in> set ts"
      using b2 l by (auto simp: entries_pushAt)
    show "\<forall>i. \<forall>s\<in>set (entries (pushAt (classroomAssignments st) (room_id room) slot) i). slot_timeSlot s \<in> set ts"
      using b3 l by (auto simp: entries_pushAt)
    show "\<forall>i. distinct (entries (pushAt (instructorAssignments st) (course_instructorId course) slot) i)"
      using b4 fi by (auto simp: entries_pushAt)
    show "\<forall>i. distinct (entries (pushAt (classroomAssignments st) (room_id room) slot) i)"
      using b5 fr by (auto simp: entries_pushAt)
    show "distinct (map (\<lambda>r. (sc_instructorId r, rowCell r)) (scheduledClasses st @ [?r]))"
      using b6 ni by simp
    show "distinct (map (\<lambda>r. (sc_classroomId r, rowCell r)) (scheduledClasses st @ [?r]))"
      using b7 nr by simp
  qed
qed

lemmas [simp del] = commitBlock.simps(2) scatterSlots.simps(2)

section \<open>Invariants of a run\<close>

lemma preserved_commitBlock:
  assumes "preserved env P" and "distinct (env_timeSlots env)"
    and "startIdx + k \<le> length (env_timeSlots env)"
  shows "P st \<Longrightarrow> distinct js \<Longrightarrow> \<forall>j \<in> set js. j < k \<Longrightarrow>
    \<forall>j \<in> set js. isSlotAvailable (env_index env) st course
        \<lparr> slot_day = day, slot_timeSlot = env_timeSlots env ! (startIdx + j) \<rparr> (room_id room) \<Longrightarrow>
    commitBlock env course room day startIdx k js st = Inr st' \<Longrightarrow> P st'"
proof (induction js arbitrary: st)
  case Nil
  then show ?case by simp
next
  case (Cons j js)
  let ?ts = "env_timeSlots env"
  let ?slot = "\<lparr> slot_day = day, slot_timeSlot = ?ts ! (startIdx + j) \<rparr>"
  from Cons.prems(5) obtain e where
    e: "commitBlock env course room day startIdx k js (place env course room ?slot (Some e) st) = Inr st'"
    and ee: "(if j + 1 = k then slotEnd (?ts ! (startIdx + j))
              else Some (slotStart (?ts ! (startIdx + j + 1)))) = Some e"
    by (auto simp: commitBlock_Cons split: option.splits)
  have range: "\<forall>j \<in> set (j # js). startIdx + j < length ?ts"
    using Cons.prems(3) assms(3) by auto
  have av: "isSlotAvailable (env_index env) st course ?slot (room_id room)"
    using Cons.prems(4) by simp
  have mem: "?ts ! (startIdx + j) \<in> set ?ts" using range by simp
  have "endsAt ?ts (?ts ! (startIdx + j)) (Some e)"
  proof (cases "j + 1 = k")
    case True
    with ee show ?thesis by (simp add: endsAt_def)
  next
    case False
    with Cons.prems(3) assms(3) have "startIdx + j + 1 < length ?ts" by auto
    with False ee show ?thesis unfolding endsAt_def by (intro disjI2 exI[of _ "startIdx + j"]) auto
  qed
  with assms(1) Cons.prems(1) av mem have P': "P (place env course room ?slot (Some e) st)"
    unfolding preserved_def by auto
  have "\<forall>j' \<in> set js. isSlotAvailable (env_index env) (place env course room ?slot (Some e) st) course
        \<lparr> slot_day = day, slot_timeSlot = ?ts ! (startIdx + j') \<rparr> (room_id room)"
  proof
    fix j' assume j': "j' \<in> set js"
    with Cons.prems(2) have "j' \<noteq> j" by auto
    moreover have "startIdx + j' < length ?ts" "startIdx + j < length ?ts"
      using range j' by auto
    ultimately have "?ts ! (startIdx + j') \<noteq> ?ts ! (startIdx + j)"
      using assms(2) by (simp add: nth_eq_iff_index_eq)
    then have "\<lparr> slot_day = day, slot_timeSlot = ?ts ! (startIdx + j') \<rparr> \<noteq> ?slot" by simp
    with Cons.prems(4) j' show "isSlotAvailable (env_index env) (place env course room ?slot (Some e) st) course
        \<lparr> slot_day = day, slot_timeSlot = ?ts ! (startIdx + j') \<rparr> (room_id room)"
      by (intro isSlotAvailable_place) auto
  qed
  with Cons.IH[OF P' _ _ _ e] Cons.prems(2,3) show ?case by auto
qed

lemma preserved_tryStarts:
  assumes "preserved env P" and "distinct (env_timeSlots env)" and "0 < k"
  shows "P st \<Longrightarrow> \<forall>i \<in> set idxs. i + k \<le> length (env_timeSlots env) \<Longrightarrow>
    tryStarts env course room day k idxs st = Inr (st', a) \<Longrightarrow> P st'"
proof (induction idxs)
  case Nil
  then show ?case by simp
next
  case (Cons i idxs)
  show ?case
  proof (cases "allAvailable env st course room day i k")
    case True
    with Cons.prems(3) have c: "commitBlock env course room day i k [0..<k] st = Inr st'"
      by (auto split: sum.splits)
    have r: "i + k \<le> length (env_timeSlots env)"
      using Cons.prems(2) by simp
    have "\<forall>j \<in> set [0..<k]. isSlotAvailable (env_index env) st course
        \<lparr> slot_day = day, slot_timeSlot = env_timeSlots env ! (i + j) \<rparr> (room_id room)"
      using True by (simp add: allAvailable_def list_all_iff)
    then show ?thesis
      using preserved_commitBlock[OF assms(1,2) r Cons.prems(1) _ _ _ c] by simp
  next
    case False
    with Cons show ?thesis by simp
  qed
qed

lemma preserved_tryDays:
  assumes "preserved env P" and "distinct (env_timeSlots env)" and "0 < k"
  shows "P st \<Longrightarrow> tryDays env course room k days st = Inr (st', a) \<Longrightarrow> P st'"
proof (induction days arbitrary: st)
  case Nil
  then show ?case by simp
next
  case (Cons day days)
  obtain idxs g' where s: "sortRandom (env_random env) (rng st)
      [0..<length (env_timeSlots env) + 1 - k] = (idxs, g')" by (cases "sortRandom (env_random env) (rng st)
      [0..<length (env_timeSlots env) + 1 - k]")
  from sortRandom_subset[OF s] have r: "\<forall>i \<in> set idxs. i + k \<le> length (env_timeSlots env)"
    by auto
  from assms(1) Cons.prems(1) have P1: "P (st\<lparr> rng := g' \<rparr>)" unfolding preserved_def by blast
  from Cons.prems(2) s obtain st1 a1 where
    t: "tryStarts env course room day k idxs (st\<lparr> rng := g' \<rparr>) = Inr (st1, a1)"
    and rest: "if a1 then st' = st1 else tryDays env course room k days st1 = Inr (st', a)"
    by (auto split: sum.splits if_splits)
  from preserved_tryStarts[OF assms P1 r t] have "P st1" .
  with rest Cons.IH show ?case by (auto split: if_splits)
qed

lemma preserved_tryRooms:
  assumes "preserved env P" and "distinct (env_timeSlots env)" and "0 < k"
  shows "P st \<Longrightarrow> tryRooms env course k days rooms st = Inr (st', a) \<Longrightarrow> P st'"
proof (induction rooms arbitrary: st)
  case Nil
  then show ?case by simp
next
  case (Cons room rooms)
  from Cons.prems(2) obtain st1 a1 where
    t: "tryDays env course room k days st = Inr (st1, a1)"
    and rest: "if a1 then st' = st1 else tryRooms env course k days rooms st1 = Inr (st', a)"
    by (auto split: sum.splits if_splits)
  from preserved_tryDays[OF assms Cons.prems(1) t] have "P st1" .
  with rest Cons.IH show ?case by (auto split: if_splits)
qed

lemma preserved_scatterSlots:
  assumes "preserved env P"
  shows "P st \<Longrightarrow> \<forall>s \<in> set slots. slot_timeSlot s \<in> set (env_timeSlots env) \<Longrightarrow>
    scatterSlots env course room k slots (st, a) = (st', a') \<Longrightarrow> P st'"
proof (induction slots arbitrary: st a)
  case Nil
  then show ?case by simp
next
  case (Cons slot slots)
  from assms have step: "\<And>st. P st \<Longrightarrow>
      isSlotAvailable (env_index env) st course slot (room_id room) \<Longrightarrow>
      P (place env course room slot (slotEnd (slot_timeSlot slot)) st)"
    using Cons.prems(2) unfolding preserved_def endsAt_def by auto
  from Cons show ?case
    by (auto simp: scatterSlots_Cons split: if_splits intro: step)
qed

lemma preserved_scatterRooms:
  assumes "preserved env P"
  shows "P st \<Longrightarrow> \<forall>s \<in> set slots. slot_timeSlot s \<in> set (env_timeSlots env) \<Longrightarrow>
    scatterRooms env course k slots rooms (st, a) = (st', a') \<Longrightarrow> P st'"
proof (induction rooms arbitrary: st a)
  case Nil
  then show ?case by simp
next
  case (Cons room rooms)
  show ?case
  proof (cases "a \<ge> k")
    case True
    with Cons.prems show ?thesis by simp
  next
    case False
    obtain st1 a1 where s: "scatterSlots env course room k slots (st, a) = (st1, a1)"
      by (cases "scatterSlots env course room k slots (st, a)")
    from preserved_scatterSlots[OF assms Cons.prems(1,2) s] have "P st1" .
    with Cons.IH[OF this Cons.prems(2)] Cons.prems(3) False s show ?thesis by simp
  qed
qed

lemma slotsNeeded_pos: "0 < slotsNeeded course"
  by (simp add: slotsNeeded_def)

lemma preserved_placeCourse:
  assumes "preserved env P" and "distinct (env_timeSlots env)"
    and "P st" and "placeCourse env rooms st course = Inr st'"
  shows "P st'"
proof (cases "rooms = []")
  case True
  with assms show ?thesis by (auto simp: placeCourse_def preserved_def)
next
  case False
  let ?k = "slotsNeeded course"
  obtain days g1 where d: "sortRandom (env_random env) (rng st) (env_weekDays env) = (days, g1)"
    by (cases "sortRandom (env_random env) (rng st) (env_weekDays env)")
  from assms(1,3) have P1: "P (st\<lparr> rng := g1 \<rparr>)" unfolding preserved_def by blast
  from assms(4) False d obtain st2 a2 where
    t: "tryRooms env course ?k days rooms (st\<lparr> rng := g1 \<rparr>) = Inr (st2, a2)"
    by (auto simp: placeCourse_def Let_def split: sum.splits)
  from preserved_tryRooms[OF assms(1,2) slotsNeeded_pos P1 t] have P2: "P st2" .
  show ?thesis
  proof (cases a2)
    case True
    with assms(4) False d t P2 show ?thesis by (simp add: placeCourse_def Let_def)
  next
    case a2: False
    obtain slots g3 where s: "sortRandom (env_random env) (rng st2)
        (allSlots (env_weekDays env) (env_timeSlots env)) = (slots, g3)"
      by (cases "sortRandom (env_random env) (rng st2)
        (allSlots (env_weekDays env) (env_timeSlots env))")
    from sortRandom_subset[OF s] have m: "\<forall>s \<in> set slots. slot_timeSlot s \<in> set (env_timeSlots env)"
      by (auto simp: allSlots_mem)
    from assms(1) P2 have P3: "P (st2\<lparr> rng := g3 \<rparr>)" unfolding preserved_def by blast
    obtain st4 a4 where r: "scatterRooms env course ?k slots rooms (st2\<lparr> rng := g3 \<rparr>, 0) = (st4, a4)"
      by (cases "scatterRooms env course ?k slots rooms (st2\<lparr> rng := g3 \<rparr>, 0)")
    from preserved_scatterRooms[OF assms(1) P3 m r] have P4: "P st4" .
    with assms(1) have "\<And>w. P (warn st4 w)" unfolding preserved_def by blast
    with assms(4) False d t a2 s r P4 show ?thesis
      by (auto simp: placeCourse_def Let_def split: if_splits)
  qed
qed

lemma preserved_processCourses:
  assumes "preserved env P" and "distinct (env_timeSlots env)"
  shows "P st \<Longrightarrow> processCourses env cs st = Inr st' \<Longrightarrow> P st'"
proof (induction cs arbitrary: st)
  case Nil
  then show ?case by simp
next
  case (Cons c cs)
  from Cons.prems(2) obtain st1 where
    p: "processCourse env st c = Inr st1" and r: "processCourses env cs st1 = Inr st'"
    by (auto split: sum.splits)
  from p preserved_placeCourse[OF assms Cons.prems(1)] have "P st1"
    by (simp add: processCourse_def)
  with Cons.IH r show ?case by blast
qed

section \<open>No double booking\<close>

lemma booked_init: "booked ts (initState g)"
  by (simp add: booked_def initState_def entries_def)

lemma preserved_booked:
  assumes "distinct (map slotStart (env_timeSlots env))"
  shows "preserved env (booked (env_timeSlots env))"
  unfolding preserved_def
proof (intro conjI allI impI)
  fix st :: "'a GenState" and course :: Course and room :: Classroom and slot e
  assume "booked (env_timeSlots env) st"
    "isSlotAvailable (env_index env) st course slot (room_id room)"
    "slot_timeSlot slot \<in> set (env_timeSlots env)"
    "endsAt (env_timeSlots env) (slot_timeSlot slot) e"
  then show "booked (env_timeSlots env) (place env course room slot e st)"
    using assms by (intro booked_place isSlotAvailable_free) auto
next
  fix st :: "'a GenState" and g
  assume "booked (env_timeSlots env) st"
  then show "booked (env_timeSlots env) (st\<lparr> rng := g \<rparr>)" by (simp add: booked_def)
next
  fix st :: "'a GenState" and w
  assume "booked (env_timeSlots env) st"
  then show "booked (env_timeSlots env) (warn st w)" by (simp add: booked_def warn_def)
qed

lemma booked_runGenerator:
  assumes "distinct (map slotStart timeSlots)"
    and "runGenerator weekDays timeSlots rnd g options = Inr st"
  shows "booked timeSlots st"
proof -
  let ?env = "mkEnv weekDays timeSlots rnd options"
  have ts: "env_timeSlots ?env = timeSlots" by (simp add: mkEnv_def)
  from assms(1) have d: "distinct timeSlots" by (simp add: distinct_map)
  from preserved_booked[of ?env] assms(1) have "preserved ?env (booked timeSlots)"
    by (simp add: ts)
  from preserved_processCourses[OF this _ booked_init] d assms(2) show ?thesis
    by (simp add: runGenerator_def Let_def ts)
qed

section \<open>Rows in time\<close>

lemma chronological_nth:
  "chronological clock ts \<Longrightarrow> i < length ts \<Longrightarrow>
   \<exists>e. slotEnd (ts ! i) = Some e \<and> clock (slotStart (ts ! i)) < clock e
      \<and> (i + 1 < length ts \<longrightarrow> clock e \<le> clock (slotStart (ts ! (i + 1))))"
proof (induction clock ts arbitrary: i rule: chronological.induct)
  case (1 clock)
  then show ?case by simp
next
  case (2 clock l)
  then show ?case by (auto split: option.splits)
next
  case (3 clock l l' ls)
  show ?case
  proof (cases i)
    case 0
    with "3.prems" show ?thesis by (auto split: option.splits)
  next
    case (Suc n)
    with "3.prems" have "chronological clock (l' # ls)" "n < length (l' # ls)" by auto
    from "3.IH"[OF this] Suc show ?thesis by simp
  qed
qed

lemma chronological_mono:
  assumes "chronological clock ts"
  shows "i \<le> j \<Longrightarrow> j < length ts \<Longrightarrow>
    clock (slotStart (ts ! i)) \<le> clock (slotStart (ts ! j))"
proof (induction j)
  case 0
  then show ?case by simp
next
  case (Suc j)
  show ?case
  proof (cases "i = Suc j")
    case True
    then show ?thesis by simp
  next
    case False
    with Suc.prems have le: "i \<le> j" and lt: "j < length ts" by auto
    from chronological_nth[OF assms lt] Suc.prems(2)
    have "clock (slotStart (ts ! j)) \<le> clock (slotStart (ts ! Suc j))" by fastforce
    with Suc.IH[OF le lt] show ?thesis by simp
  qed
qed

lemma chronological_strict:
  assumes "chronological clock ts" and "i < j" and "j < length ts"
  shows "clock (slotStart (ts ! i)) < clock (slotStart (ts ! j))"
proof -
  from assms have i: "i < length ts" and s: "i + 1 < length ts" by auto
  from chronological_nth[OF assms(1) i] s
  have "clock (slotStart (ts ! i)) < clock (slotStart (ts ! (i + 1)))" by fastforce
  moreover from chronological_mono[OF assms(1), of "i + 1" j] assms
  have "clock (slotStart (ts ! (i + 1))) \<le> clock (slotStart (ts ! j))" by simp
  ultimately show ?thesis by simp
qed

lemma chronological_distinct:
  assumes "chronological clock ts"
  shows "distinct (map slotStart ts)"
proof -
  have "\<forall>i j. i < j \<longrightarrow> j < length ts \<longrightarrow> slotStart (ts ! i) \<noteq> slotStart (ts ! j)"
    using chronological_strict[OF assms] by fastforce
  then have "\<forall>i j. i < length ts \<longrightarrow> j < length ts \<longrightarrow> i \<noteq> j \<longrightarrow>
      map slotStart ts ! i \<noteq> map slotStart ts ! j"
    by (metis nat_neq_iff nth_map)
  then show ?thesis by (simp add: distinct_conv_nth)
qed

lemma chronological_disjoint:
  assumes c: "chronological clock ts"
  shows "disjointLabels clock ts"
proof -
  have ends: "\<forall>l \<in> set ts.
      case slotEnd l of None \<Rightarrow> False | Some e \<Rightarrow> clock (slotStart l) < clock e"
  proof
    fix l assume "l \<in> set ts"
    then obtain i where "i < length ts" "l = ts ! i" by (metis in_set_conv_nth)
    with chronological_nth[OF c] show
      "case slotEnd l of None \<Rightarrow> False | Some e \<Rightarrow> clock (slotStart l) < clock e"
      by fastforce
  qed
  have ap: "apart clock (ts ! i) (ts ! j)" if "i < j" "j < length ts" for i j
  proof -
    from that have i: "i < length ts" "i + 1 < length ts" "i + 1 \<le> j" by auto
    from chronological_nth[OF c i(1)] i(2) obtain e where e: "slotEnd (ts ! i) = Some e"
      "clock e \<le> clock (slotStart (ts ! (i + 1)))" by blast
    from chronological_nth[OF c that(2)] obtain e' where e': "slotEnd (ts ! j) = Some e'"
      by blast
    from chronological_mono[OF c i(3) that(2)] e
    have "clock e \<le> clock (slotStart (ts ! j))" by simp
    with e e' show ?thesis by (simp add: apart_def)
  qed
  have sym: "apart clock a b \<Longrightarrow> apart clock b a" for a b
    by (auto simp: apart_def split: option.splits)
  have "\<forall>i<length ts. \<forall>j<length ts. i = j \<or> apart clock (ts ! i) (ts ! j)"
    using ap sym by (metis nat_neq_iff)
  with ends show ?thesis
    by (simp add: disjointLabels_def list_all_iff)
qed

lemma chronological_ends:
  assumes c: "chronological clock ts" and i: "i < length ts" and e: "endsAt ts (ts ! i) (Some x)"
  shows "clock (slotStart (ts ! i)) < clock x"
    and "i + 1 < length ts \<Longrightarrow> clock x \<le> clock (slotStart (ts ! (i + 1)))"
proof -
  from chronological_nth[OF c i] obtain y where y: "slotEnd (ts ! i) = Some y"
    "clock (slotStart (ts ! i)) < clock y"
    "i + 1 < length ts \<longrightarrow> clock y \<le> clock (slotStart (ts ! (i + 1)))" by blast
  from chronological_distinct[OF c] have d: "distinct ts" by (simp add: distinct_map)
  from e consider "x = y" | i' where "i' + 1 < length ts" "ts ! i = ts ! i'"
    "x = slotStart (ts ! (i' + 1))"
    using y unfolding endsAt_def by auto
  then have "clock (slotStart (ts ! i)) < clock x
      \<and> (i + 1 < length ts \<longrightarrow> clock x \<le> clock (slotStart (ts ! (i + 1))))"
  proof cases
    case 1
    with y show ?thesis by simp
  next
    case 2
    with d i have "i' = i" by (simp add: nth_eq_iff_index_eq)
    with 2 chronological_strict[OF c, of i "i + 1"] show ?thesis by simp
  qed
  then show "clock (slotStart (ts ! i)) < clock x"
    and "i + 1 < length ts \<Longrightarrow> clock x \<le> clock (slotStart (ts ! (i + 1)))" by simp_all
qed

lemma timed_init: "timed ts (initState g)"
  by (simp add: timed_def initState_def)

lemma preserved_timed: "preserved env (timed (env_timeSlots env))"
  unfolding preserved_def
proof (intro conjI allI impI)
  fix st :: "'a GenState" and course :: Course and room :: Classroom
    and slot :: ClassSlot and e
  assume t: "timed (env_timeSlots env) st"
    and m: "slot_timeSlot slot \<in> set (env_timeSlots env)"
    and e: "endsAt (env_timeSlots env) (slot_timeSlot slot) e"
  from m obtain i where "i < length (env_timeSlots env)" "env_timeSlots env ! i = slot_timeSlot slot"
    by (auto simp: in_set_conv_nth)
  with e have "\<exists>i<length (env_timeSlots env).
      slotStart (slot_timeSlot slot) = slotStart (env_timeSlots env ! i)
      \<and> endsAt (env_timeSlots env) (env_timeSlots env ! i) e" by auto
  with t show "timed (env_timeSlots env) (place env course room slot e st)"
    by (auto simp: timed_def place_fields mkRow_fields)
next
  fix st :: "'a GenState" and g
  assume "timed (env_timeSlots env) st"
  then show "timed (env_timeSlots env) (st\<lparr> rng := g \<rparr>)" by (simp add: timed_def)
next
  fix st :: "'a GenState" and w
  assume "timed (env_timeSlots env) st"
  then show "timed (env_timeSlots env) (warn st w)" by (simp add: timed_def warn_def)
qed

lemma timed_runGenerator:
  assumes "distinct timeSlots"
    and "runGenerator weekDays timeSlots rnd g options = Inr st"
  shows "timed timeSlots st"
proof -
  let ?env = "mkEnv weekDays timeSlots rnd options"
  have ts: "env_timeSlots ?env = timeSlots" by (simp add: mkEnv_def)
  from preserved_timed[of ?env] have "preserved ?env (timed timeSlots)" by (simp add: ts)
  from preserved_processCourses[OF this _ timed_init] assms show ?thesis
    by (simp add: runGenerator_def Let_def ts)
qed

lemma timed_no_overlap:
  assumes c: "chronological clock ts"
    and r: "\<exists>i<length ts. sc_startTime r = slotStart (ts ! i) \<and> endsAt ts (ts ! i) (sc_endTime r)"
    and r': "\<exists>i<length ts. sc_startTime r' = slotStart (ts ! i) \<and> endsAt ts (ts ! i) (sc_endTime r')"
    and ne: "sc_startTime r \<noteq> sc_startTime r'"
  shows "\<not> overlap clock r r'"
proof
  assume "overlap clock r r'"
  then obtain e e' where e: "sc_endTime r = Some e" "sc_endTime r' = Some e'"
    and o: "clock (sc_startTime r) < clock e'" "clock (sc_startTime r') < clock e"
    unfolding overlap_def by blast
  from r e obtain i where i: "i < length ts" "sc_startTime r = slotStart (ts ! i)"
    "endsAt ts (ts ! i) (Some e)" by auto
  from r' e obtain j where j: "j < length ts" "sc_startTime r' = slotStart (ts ! j)"
    "endsAt ts (ts ! j) (Some e')" by auto
  from ne i j have "i \<noteq> j" by auto
  then consider "i < j" | "j < i" by arith
  then show False
  proof cases
    case 1
    with j have s: "i + 1 < length ts" by simp
    from chronological_ends(2)[OF c i(1,3) s]
    have "clock e \<le> clock (slotStart (ts ! (i + 1)))" .
    also from chronological_mono[OF c, of "i + 1" j] 1 j
    have "\<dots> \<le> clock (slotStart (ts ! j))" by simp
    finally show False using o(2) j(2) by simp
  next
    case 2
    with i have s: "j + 1 < length ts" by simp
    from chronological_ends(2)[OF c j(1,3) s]
    have "clock e' \<le> clock (slotStart (ts ! (j + 1)))" .
    also from chronological_mono[OF c, of "j + 1" i] 2 i
    have "\<dots> \<le> clock (slotStart (ts ! i))" by simp
    finally show False using o(1) i(2) by simp
  qed
qed

lemma timed_ends:
  assumes c: "chronological clock ts"
    and r: "\<exists>i<length ts. sc_startTime r = slotStart (ts ! i) \<and> endsAt ts (ts ! i) (sc_endTime r)"
  shows "sc_endTime r \<noteq> None"
proof -
  from r obtain i where i: "i < length ts" "endsAt ts (ts ! i) (sc_endTime r)" by blast
  from chronological_nth[OF c i(1)] obtain e where "slotEnd (ts ! i) = Some e" by blast
  with i(2) show ?thesis unfolding endsAt_def by auto
qed

section \<open>Rows and warnings of a run\<close>


lemma appended_refl: "appended st st course []"
  by (simp add: appended_def)

lemma appended_rng [simp]: "appended (st\<lparr> rng := g \<rparr>) st' course new = appended st st' course new"
  by (simp add: appended_def)

lemma appended_trans:
  "appended st st1 course n1 \<Longrightarrow> appended st1 st2 course n2 \<Longrightarrow> appended st st2 course (n1 @ n2)"
  by (simp add: appended_def)

lemma appended_place:
  "appended st (place env course room slot e st) course
     [mkRow env course room (slot_day slot) (slotStart (slot_timeSlot slot)) e]"
  by (simp add: appended_def place_fields mkRow_fields)

lemma commitBlock_rows:
  "commitBlock env course room day startIdx k js st = Inr st' \<Longrightarrow>
   scheduledClasses st' = scheduledClasses st @ map (blockRow env course room day startIdx k) js
   \<and> console st' = console st \<and> rng st' = rng st"
proof (induction js arbitrary: st)
  case Nil
  then show ?case by simp
next
  case (Cons j js)
  from Cons.prems obtain e where
    e: "(if j + 1 = k then slotEnd (env_timeSlots env ! (startIdx + j))
         else Some (slotStart (env_timeSlots env ! (startIdx + j + 1)))) = Some e"
    and c: "commitBlock env course room day startIdx k js
         (place env course room
            \<lparr> slot_day = day, slot_timeSlot = env_timeSlots env ! (startIdx + j) \<rparr> (Some e) st) = Inr st'"
    by (auto simp: commitBlock_Cons split: option.splits)
  from Cons.IH[OF c] e show ?case
    by (simp add: place_fields blockRow_def)
qed

lemma blockRow_course [simp]: "sc_courseId (blockRow env course room day i k j) = course_id course"
  by (simp add: blockRow_def mkRow_fields)

lemma commitBlock_appended:
  assumes "commitBlock env course room day startIdx k js st = Inr st'"
  shows "appended st st' course (map (blockRow env course room day startIdx k) js)"
    and "console st' = console st"
  using commitBlock_rows[OF assms] by (simp_all add: appended_def list_all_iff)

lemma tryStarts_appended:
  "tryStarts env course room day k idxs st = Inr (st', a) \<Longrightarrow>
   console st' = console st \<and>
   (\<exists>new. appended st st' course new \<and> length new = (if a then k else 0))"
proof (induction idxs)
  case Nil
  then show ?case by (auto intro: appended_refl)
next
  case (Cons i idxs)
  show ?case
  proof (cases "allAvailable env st course room day i k")
    case True
    with Cons.prems have c: "commitBlock env course room day i k [0..<k] st = Inr st'" and a: a
      by (auto split: sum.splits)
    from commitBlock_appended[OF c] a show ?thesis by force
  next
    case False
    with Cons show ?thesis by simp
  qed
qed

lemma tryDays_appended:
  "tryDays env course room k days st = Inr (st', a) \<Longrightarrow>
   console st' = console st \<and>
   (\<exists>new. appended st st' course new \<and> length new = (if a then k else 0))"
proof (induction days arbitrary: st)
  case Nil
  then show ?case by (auto intro: appended_refl)
next
  case (Cons day days)
  obtain idxs g' where s: "sortRandom (env_random env) (rng st)
      [0..<length (env_timeSlots env) + 1 - k] = (idxs, g')"
    by (cases "sortRandom (env_random env) (rng st) [0..<length (env_timeSlots env) + 1 - k]")
  from Cons.prems s obtain st1 a1 where
    t: "tryStarts env course room day k idxs (st\<lparr> rng := g' \<rparr>) = Inr (st1, a1)"
    and rest: "if a1 then st' = st1 \<and> a else tryDays env course room k days st1 = Inr (st', a)"
    by (auto split: sum.splits if_splits)
  from tryStarts_appended[OF t] obtain n1 where
    n1: "console st1 = console st" "appended st st1 course n1" "length n1 = (if a1 then k else 0)"
    by auto
  show ?case
  proof (cases a1)
    case True
    with rest n1 show ?thesis by auto
  next
    case False
    with rest have "tryDays env course room k days st1 = Inr (st', a)" by simp
    from Cons.IH[OF this] obtain n2 where
      "console st' = console st1" "appended st1 st' course n2" "length n2 = (if a then k else 0)"
      by auto
    with n1 False appended_trans[OF n1(2) this(2)] show ?thesis by auto
  qed
qed

lemma tryRooms_appended:
  "tryRooms env course k days rooms st = Inr (st', a) \<Longrightarrow>
   console st' = console st \<and>
   (\<exists>new. appended st st' course new \<and> length new = (if a then k else 0))"
proof (induction rooms arbitrary: st)
  case Nil
  then show ?case by (auto intro: appended_refl)
next
  case (Cons room rooms)
  from Cons.prems obtain st1 a1 where
    t: "tryDays env course room k days st = Inr (st1, a1)"
    and rest: "if a1 then st' = st1 \<and> a else tryRooms env course k days rooms st1 = Inr (st', a)"
    by (auto split: sum.splits if_splits)
  from tryDays_appended[OF t] obtain n1 where
    n1: "console st1 = console st" "appended st st1 course n1" "length n1 = (if a1 then k else 0)"
    by auto
  show ?case
  proof (cases a1)
    case True
    with rest n1 show ?thesis by auto
  next
    case False
    with rest have "tryRooms env course k days rooms st1 = Inr (st', a)" by simp
    from Cons.IH[OF this] obtain n2 where
      "console st' = console st1" "appended st1 st' course n2" "length n2 = (if a then k else 0)"
      by auto
    with n1 False appended_trans[OF n1(2) this(2)] show ?thesis by auto
  qed
qed

lemma scatterSlots_appended:
  "scatterSlots env course room k slots (st, a) = (st', a') \<Longrightarrow> a \<le> k \<Longrightarrow>
   console st' = console st \<and> a \<le> a' \<and> a' \<le> k \<and>
   (\<exists>new. appended st st' course new \<and> length new = a' - a)"
proof (induction slots arbitrary: st a)
  case Nil
  then show ?case by (auto intro: appended_refl)
next
  case (Cons slot slots)
  show ?case
  proof (cases "a < k \<and> isSlotAvailable (env_index env) st course slot (room_id room)")
    case True
    let ?st1 = "place env course room slot (slotEnd (slot_timeSlot slot)) st"
    from True Cons.prems have "scatterSlots env course room k slots (?st1, a + 1) = (st', a')"
      by (simp add: scatterSlots_Cons)
    from Cons.IH[OF this] True obtain n2 where
      n2: "console st' = console ?st1" "a + 1 \<le> a'" "a' \<le> k" "appended ?st1 st' course n2"
      "length n2 = a' - (a + 1)" by auto
    from appended_trans[OF appended_place n2(4)] n2 show ?thesis
      by (auto simp: place_fields intro!: exI)
  next
    case False
    with Cons.prems have "(st', a') = (st, a) \<or> scatterSlots env course room k slots (st, a) = (st', a')"
      by (auto simp: scatterSlots_Cons split: if_splits)
    with Cons.IH Cons.prems(2) show ?thesis by (auto intro: appended_refl)
  qed
qed

lemma scatterRooms_appended:
  "scatterRooms env course k slots rooms (st, a) = (st', a') \<Longrightarrow> a \<le> k \<Longrightarrow>
   console st' = console st \<and> a \<le> a' \<and> a' \<le> k \<and>
   (\<exists>new. appended st st' course new \<and> length new = a' - a)"
proof (induction rooms arbitrary: st a)
  case Nil
  then show ?case by (auto intro: appended_refl)
next
  case (Cons room rooms)
  show ?case
  proof (cases "a \<ge> k")
    case True
    with Cons.prems show ?thesis by (auto intro: appended_refl)
  next
    case False
    obtain st1 a1 where s: "scatterSlots env course room k slots (st, a) = (st1, a1)"
      by (cases "scatterSlots env course room k slots (st, a)")
    from scatterSlots_appended[OF s Cons.prems(2)] obtain n1 where
      n1: "console st1 = console st" "a \<le> a1" "a1 \<le> k" "appended st st1 course n1"
      "length n1 = a1 - a" by auto
    from Cons.prems(1) False s have "scatterRooms env course k slots rooms (st1, a1) = (st', a')"
      by simp
    from Cons.IH[OF this n1(3)] obtain n2 where
      n2: "console st' = console st1" "a1 \<le> a'" "a' \<le> k" "appended st1 st' course n2"
      "length n2 = a' - a1" by auto
    from appended_trans[OF n1(4) n2(4)] n1 n2 show ?thesis by auto
  qed
qed

text \<open>What the body of the course loop does to the result and to the console.\<close>

lemma placeCourse_outcome:
  assumes "placeCourse env rooms st course = Inr st'"
  shows "\<exists>new. appended st st' course new \<and> length new \<le> slotsNeeded course \<and>
     console st' = console st @
       (if length new < slotsNeeded course
        then [if rooms = [] then NoSuitableRooms (course_code course)
              else CouldOnlyAssign (length new) (slotsNeeded course) (course_code course)]
        else [])"
proof (cases "rooms = []")
  case True
  with assms have "st' = warn st (NoSuitableRooms (course_code course))"
    by (simp add: placeCourse_def)
  with True slotsNeeded_pos[of course] show ?thesis
    by (intro exI[of _ "[]"]) (simp add: appended_def warn_def)
next
  case False
  let ?k = "slotsNeeded course"
  obtain days g1 where d: "sortRandom (env_random env) (rng st) (env_weekDays env) = (days, g1)"
    by (cases "sortRandom (env_random env) (rng st) (env_weekDays env)")
  from assms False d obtain st2 a2 where
    t: "tryRooms env course ?k days rooms (st\<lparr> rng := g1 \<rparr>) = Inr (st2, a2)"
    by (auto simp: placeCourse_def Let_def split: sum.splits)
  from tryRooms_appended[OF t] obtain n1 where
    n1: "console st2 = console st" "appended st st2 course n1" "length n1 = (if a2 then ?k else 0)"
    by auto
  show ?thesis
  proof (cases a2)
    case True
    with assms False d t have "st' = st2" by (simp add: placeCourse_def Let_def)
    with n1 True show ?thesis by (intro exI[of _ n1]) simp
  next
    case a2: False
    obtain slots g3 where s: "sortRandom (env_random env) (rng st2)
        (allSlots (env_weekDays env) (env_timeSlots env)) = (slots, g3)"
      by (cases "sortRandom (env_random env) (rng st2)
        (allSlots (env_weekDays env) (env_timeSlots env))")
    obtain st4 a4 where r: "scatterRooms env course ?k slots rooms (st2\<lparr> rng := g3 \<rparr>, 0) = (st4, a4)"
      by (cases "scatterRooms env course ?k slots rooms (st2\<lparr> rng := g3 \<rparr>, 0)")
    from scatterRooms_appended[OF r] obtain n2 where
      n2: "console st4 = console st2" "a4 \<le> ?k" "appended st2 st4 course n2" "length n2 = a4"
      by auto
    from assms False d t a2 s r have st': "st' = (if a4 < ?k
        then warn st4 (CouldOnlyAssign a4 ?k (course_code course)) else st4)"
      by (auto simp: placeCourse_def Let_def split: if_splits)
    from n1 a2 have "n1 = []" by simp
    with appended_trans[OF n1(2) n2(3)] have ap: "appended st st4 course n2" by simp
    show ?thesis
    proof (cases "a4 < ?k")
      case True
      with st' ap n1 n2 False show ?thesis
        by (intro exI[of _ n2]) (simp add: appended_def warn_def)
    next
      case False
      with st' ap n1 n2 show ?thesis by (intro exI[of _ n2]) simp
    qed
  qed
qed


lemma rowsFor_appended:
  "appended st st' course new \<Longrightarrow>
   rowsFor x (scheduledClasses st') =
     rowsFor x (scheduledClasses st) + (if x = course_id course then length new else 0)"
  by (auto simp: appended_def rowsFor_def list_all_iff filter_empty_conv)

lemma processCourses_outcome:
  "distinct (map course_id cs) \<Longrightarrow>
   \<forall>c \<in> set cs. rowsFor (course_id c) (scheduledClasses st) = 0 \<Longrightarrow>
   processCourses env cs st = Inr st' \<Longrightarrow>
   console st' = console st @
     map (\<lambda>c. warningFor (env_classrooms env) c (rowsFor (course_id c) (scheduledClasses st')))
       (filter (\<lambda>c. rowsFor (course_id c) (scheduledClasses st') < slotsNeeded c) cs)
   \<and> (\<forall>x. x \<notin> course_id ` set cs \<longrightarrow>
         rowsFor x (scheduledClasses st') = rowsFor x (scheduledClasses st))
   \<and> (\<forall>c \<in> set cs. rowsFor (course_id c) (scheduledClasses st') \<le> slotsNeeded c)"
proof (induction cs arbitrary: st)
  case Nil
  then show ?case by simp
next
  case (Cons c cs)
  from Cons.prems(3) obtain st1 where
    p: "placeCourse env (suitableRooms (env_classrooms env) c) st c = Inr st1"
    and r: "processCourses env cs st1 = Inr st'"
    by (auto simp: processCourse_def split: sum.splits)
  from placeCourse_outcome[OF p] obtain new where
    ap: "appended st st1 c new" and le: "length new \<le> slotsNeeded c"
    and co: "console st1 = console st @
       (if length new < slotsNeeded c
        then [warningFor (env_classrooms env) c (length new)] else [])"
    by (auto simp: warningFor_def)
  from Cons.prems(1) have nc: "course_id c \<notin> course_id ` set cs" and d: "distinct (map course_id cs)"
    by auto
  have r1: "\<And>x. rowsFor x (scheduledClasses st1) =
      rowsFor x (scheduledClasses st) + (if x = course_id c then length new else 0)"
    using rowsFor_appended[OF ap] .
  have z: "\<forall>c' \<in> set cs. rowsFor (course_id c') (scheduledClasses st1) = 0"
  proof
    fix c' assume c': "c' \<in> set cs"
    with nc have "course_id c' \<noteq> course_id c" by (metis image_eqI)
    with Cons.prems(2) c' show "rowsFor (course_id c') (scheduledClasses st1) = 0"
      by (simp add: r1)
  qed
  from Cons.IH[OF d z r] have
    i1: "console st' = console st1 @
     map (\<lambda>c. warningFor (env_classrooms env) c (rowsFor (course_id c) (scheduledClasses st')))
       (filter (\<lambda>c. rowsFor (course_id c) (scheduledClasses st') < slotsNeeded c) cs)"
    and i2: "\<forall>x. x \<notin> course_id ` set cs \<longrightarrow>
         rowsFor x (scheduledClasses st') = rowsFor x (scheduledClasses st1)"
    and i3: "\<forall>c \<in> set cs. rowsFor (course_id c) (scheduledClasses st') \<le> slotsNeeded c"
    by blast+
  from i2 nc r1 Cons.prems(2) have n: "rowsFor (course_id c) (scheduledClasses st') = length new"
    by simp
  have "\<forall>x. x \<notin> course_id ` set (c # cs) \<longrightarrow>
         rowsFor x (scheduledClasses st') = rowsFor x (scheduledClasses st)"
    using i2 r1 by simp
  moreover have "\<forall>c' \<in> set (c # cs). rowsFor (course_id c') (scheduledClasses st') \<le> slotsNeeded c'"
    using i3 n le by simp
  moreover have "console st' = console st @
     map (\<lambda>c. warningFor (env_classrooms env) c (rowsFor (course_id c) (scheduledClasses st')))
       (filter (\<lambda>c. rowsFor (course_id c) (scheduledClasses st') < slotsNeeded c) (c # cs))"
    using i1 co n by simp
  ultimately show ?case by blast
qed

lemma sortedCourses_set [simp]: "set (sortedCourses idx cs) = set cs"
  by (simp add: sortedCourses_def)

lemma sortedCourses_distinct:
  "distinct (map course_id cs) \<Longrightarrow> distinct (map course_id (sortedCourses idx cs))"
proof -
  have "mset (map course_id (sortedCourses idx cs)) = mset (map course_id cs)"
    by (simp add: sortedCourses_def)
  then show "distinct (map course_id cs) \<Longrightarrow> distinct (map course_id (sortedCourses idx cs))"
    by (metis mset_eq_imp_distinct_iff)
qed

lemma runGenerator_outcome:
  assumes "distinct (map course_id (courses options))"
    and "runGenerator weekDays timeSlots rnd g options = Inr st"
  shows "console st =
     map (\<lambda>c. warningFor (classrooms options) c (rowsFor (course_id c) (scheduledClasses st)))
       (filter (\<lambda>c. rowsFor (course_id c) (scheduledClasses st) < slotsNeeded c)
          (sortedCourses (buildIndex (constraints options)) (courses options)))"
    and "\<forall>c \<in> set (courses options). rowsFor (course_id c) (scheduledClasses st) \<le> slotsNeeded c"
proof -
  let ?env = "mkEnv weekDays timeSlots rnd options"
  let ?cs = "sortedCourses (env_index ?env) (courses options)"
  have p: "processCourses ?env ?cs (initState g) = Inr st"
    using assms(2) by (simp add: runGenerator_def Let_def)
  have z: "\<forall>c \<in> set ?cs. rowsFor (course_id c) (scheduledClasses (initState g)) = 0"
    by (simp add: initState_def rowsFor_def)
  from processCourses_outcome[OF sortedCourses_distinct[OF assms(1)] z p]
  show "console st =
     map (\<lambda>c. warningFor (classrooms options) c (rowsFor (course_id c) (scheduledClasses st)))
       (filter (\<lambda>c. rowsFor (course_id c) (scheduledClasses st) < slotsNeeded c)
          (sortedCourses (buildIndex (constraints options)) (courses options)))"
    and "\<forall>c \<in> set (courses options). rowsFor (course_id c) (scheduledClasses st) \<le> slotsNeeded c"
    by (simp_all add: mkEnv_def initState_def)
qed

section \<open>Shuffles and the contiguous phase\<close>


lemma sortRandom_mset:
  assumes "permuting rnd"
  shows "mset (fst (sortRandom rnd g xs)) = mset xs"
proof -
  obtain p g' where p: "rnd g (length xs) = (p, g')" by (cases "rnd g (length xs)")
  with assms have m: "mset p = mset [0..<length xs]"
    unfolding permuting_def by (metis fst_conv)
  then have "set p = set [0..<length xs]" by (rule mset_eq_setD)
  then have "filter (\<lambda>i. i < length xs) p = p" by (auto simp: filter_id_conv)
  with p have "fst (sortRandom rnd g xs) = map (\<lambda>i. xs ! i) p"
    by (simp add: sortRandom_def)
  moreover have "mset (map (\<lambda>i. xs ! i) p) = mset (map (\<lambda>i. xs ! i) [0..<length xs])"
    using m by (metis mset_map)
  ultimately show ?thesis by (simp add: map_nth)
qed

lemma sortRandom_nonempty:
  assumes "permuting rnd" and "xs \<noteq> []" and "sortRandom rnd g xs = (ys, g')"
  shows "\<exists>y rest. ys = y # rest \<and> y \<in> set xs"
proof -
  from sortRandom_mset[OF assms(1), of g xs] assms(3) have m: "mset ys = mset xs" by simp
  with assms(2) have "ys \<noteq> []" by auto
  then obtain y rest where "ys = y # rest" by (cases ys) auto
  moreover from m have "set ys = set xs" by (rule mset_eq_setD)
  ultimately show ?thesis by auto
qed

lemma commitBlock_total:
  "\<forall>j \<in> set js. j + 1 = k \<longrightarrow> slotEnd (env_timeSlots env ! (startIdx + j)) \<noteq> None \<Longrightarrow>
   \<exists>st'. commitBlock env course room day startIdx k js st = Inr st'"
proof (induction js arbitrary: st)
  case Nil
  then show ?case by simp
next
  case (Cons j js)
  then show ?case by (auto simp: commitBlock_Cons split: option.splits)
qed

lemma isSlotAvailable_vacant:
  "vacant st \<Longrightarrow> isSlotAvailable emptyIndex st course slot roomId"
  by (simp add: isSlotAvailable_iff vacant_def emptyIndex_def entries_def)

lemma contiguous_rows_general:
  assumes "commitBlock env course room day i k [0..<k] st = Inr st'"
  shows "\<exists>new. scheduledClasses st' = scheduledClasses st @ new \<and> length new = k
     \<and> list_all (\<lambda>r. sc_day r = day \<and> sc_classroomId r = room_id room
                     \<and> sc_courseId r = course_id course
                     \<and> sc_instructorId r = course_instructorId course) new
     \<and> (\<forall>j<k. sc_startTime (new ! j) = slotStart (env_timeSlots env ! (i + j)))
     \<and> (\<forall>j. j + 1 < k \<longrightarrow> sc_endTime (new ! j) = Some (sc_startTime (new ! (j + 1))))
     \<and> (0 < k \<longrightarrow> sc_endTime (new ! (k - 1)) = slotEnd (env_timeSlots env ! (i + k - 1)))"
proof -
  let ?new = "map (blockRow env course room day i k) [0..<k]"
  from commitBlock_rows[OF assms] have "scheduledClasses st' = scheduledClasses st @ ?new" by simp
  moreover have "length ?new = k" by simp
  moreover have "list_all (\<lambda>r. sc_day r = day \<and> sc_classroomId r = room_id room
                     \<and> sc_courseId r = course_id course
                     \<and> sc_instructorId r = course_instructorId course) ?new"
    by (simp add: list_all_iff blockRow_def mkRow_fields)
  moreover have "\<forall>j<k. sc_startTime (?new ! j) = slotStart (env_timeSlots env ! (i + j))"
    by (simp add: blockRow_def mkRow_fields)
  moreover have "\<forall>j. j + 1 < k \<longrightarrow> sc_endTime (?new ! j) = Some (sc_startTime (?new ! (j + 1)))"
    by (simp add: blockRow_def mkRow_fields)
  moreover have "0 < k \<longrightarrow> sc_endTime (?new ! (k - 1)) = slotEnd (env_timeSlots env ! (i + k - 1))"
    by (simp add: blockRow_def mkRow_fields)
  ultimately show ?thesis by blast
qed

lemma scenario_one_course:
  assumes "permuting rnd"
  shows "\<exists>d i. d \<in> set wd5 \<and> i < 3 \<and>
     generateTimetable wd5 ts4 rnd g optionsOne =
       Inr [\<lparr> sc_id = 0, sc_courseId = 1, sc_instructorId = 7, sc_classroomId = 5, sc_day = d,
               sc_startTime = slotStart (ts4 ! i), sc_endTime = Some (slotStart (ts4 ! (i + 1))),
               sc_timetableId = 9 \<rparr>,
            \<lparr> sc_id = 0, sc_courseId = 1, sc_instructorId = 7, sc_classroomId = 5, sc_day = d,
               sc_startTime = slotStart (ts4 ! (i + 1)), sc_endTime = slotEnd (ts4 ! (i + 1)),
               sc_timetableId = 9 \<rparr>]"
proof -
  let ?env = "mkEnv wd5 ts4 rnd optionsOne"
  have env: "env_weekDays ?env = wd5" "env_timeSlots ?env = ts4" "env_random ?env = rnd"
    "env_index ?env = emptyIndex" "env_classrooms ?env = [roomR]" "env_timetableId ?env = 9"
    by (simp_all add: mkEnv_def optionsOne_def buildIndex_def)
  have k: "slotsNeeded courseA = 2" by (simp add: slotsNeeded_def courseA_def)
  have rooms: "suitableRooms [roomR] courseA = [roomR]"
    by (simp add: suitableRooms_def roomR_def courseA_def)
  obtain days g1 where d: "sortRandom rnd g wd5 = (days, g1)" by (cases "sortRandom rnd g wd5")
  have "wd5 \<noteq> []" by (simp add: wd5_def)
  from sortRandom_nonempty[OF assms this d] obtain day rest where
    days: "days = day # rest" and day: "day \<in> set wd5" by blast
  obtain idxs g2 where s: "sortRandom rnd g1 [0..<3] = (idxs, g2)" by (cases "sortRandom rnd g1 [0..<3]")
  have "[0..<3] \<noteq> []" by simp
  from sortRandom_nonempty[OF assms this s] obtain i more where
    idxs: "idxs = i # more" and i: "i < 3" by auto
  let ?st = "initState g\<lparr> rng := g2 \<rparr>"
  have av: "allAvailable ?env ?st courseA roomR day i 2"
    by (simp add: allAvailable_def env list_all_iff isSlotAvailable_vacant vacant_def initState_def)
  have "slotEnd (ts4 ! (0 + 1)) \<noteq> None" "slotEnd (ts4 ! (1 + 1)) \<noteq> None"
    "slotEnd (ts4 ! (2 + 1)) \<noteq> None"
    by code_simp+
  moreover from i have "i = 0 \<or> i = 1 \<or> i = 2" by arith
  ultimately have e: "slotEnd (ts4 ! (i + 1)) \<noteq> None" by blast
  then have "\<forall>j \<in> set [0..<2]. j + 1 = 2 \<longrightarrow> slotEnd (env_timeSlots ?env ! (i + j)) \<noteq> None"
    by (auto simp: env)
  from commitBlock_total[OF this] obtain st' where
    c: "commitBlock ?env courseA roomR day i 2 [0..<2] ?st = Inr st'" by blast
  from commitBlock_rows[OF c] have r: "scheduledClasses st' =
      [blockRow ?env courseA roomR day i 2 0, blockRow ?env courseA roomR day i 2 1]"
    by (simp add: initState_def upt_rec)
  have len: "length ts4 = 4" by (simp add: ts4_def)
  have g0: "rng (initState g) = g" by (simp add: initState_def)
  have cs: "sortedCourses (env_index ?env) (courses optionsOne) = [courseA]"
    by (simp add: sortedCourses_def optionsOne_def)
  have "processCourse ?env (initState g) courseA = Inr st'"
    using d days s idxs av c
    by (simp add: processCourse_def placeCourse_def env rooms k len g0)
  then have "runGenerator wd5 ts4 rnd g optionsOne = Inr st'"
    by (simp add: runGenerator_def Let_def cs)
  then have "generateTimetable wd5 ts4 rnd g optionsOne = Inr (scheduledClasses st')"
    by (simp add: generateTimetable_def)
  with r day i show ?thesis
    by (intro exI[of _ day] exI[of _ i])
       (simp add: blockRow_def mkRow_def env courseA_def roomR_def)
qed

section \<open>The conflict index and mutual exclusion\<close>

lemma addConstraint_grows:
  "x \<in> set (entries (courseConflicts idx) k) \<Longrightarrow>
   x \<in> set (entries (courseConflicts (addConstraint idx c)) k)"
  by (auto simp: addConstraint_def Let_def entries_pushAt)

lemma foldl_addConstraint_grows:
  "x \<in> set (entries (courseConflicts idx) k) \<Longrightarrow>
   x \<in> set (entries (courseConflicts (foldl addConstraint idx cs)) k)"
  by (induction cs arbitrary: idx) (simp_all add: addConstraint_grows)

lemma addConstraint_conflict:
  assumes "con_type c = utf16 ''course_conflict''"
  shows "parseInt (con_timeSlot c)
           \<in> set (entries (courseConflicts (addConstraint idx c)) (Num (con_entityId c)))"
    and "Num (con_entityId c)
           \<in> set (entries (courseConflicts (addConstraint idx c)) (parseInt (con_timeSlot c)))"
  using assms by (auto simp: addConstraint_def Let_def entries_pushAt)

lemma foldl_addConstraint_conflict:
  assumes "c \<in> set cs" and "con_type c = utf16 ''course_conflict''"
  shows "parseInt (con_timeSlot c)
           \<in> set (entries (courseConflicts (foldl addConstraint idx cs)) (Num (con_entityId c)))
       \<and> Num (con_entityId c)
           \<in> set (entries (courseConflicts (foldl addConstraint idx cs)) (parseInt (con_timeSlot c)))"
  using assms(1)
proof (induction cs arbitrary: idx)
  case Nil
  then show ?case by simp
next
  case (Cons d cs)
  show ?case
  proof (cases "c = d")
    case True
    with addConstraint_conflict[OF assms(2), of idx] show ?thesis
      by (simp add: foldl_addConstraint_grows)
  next
    case False
    with Cons show ?thesis by simp
  qed
qed

lemma symmetricIndex_addConstraint:
  "symmetricIndex idx \<Longrightarrow> symmetricIndex (addConstraint idx c)"
  unfolding symmetricIndex_def
  by (auto simp: addConstraint_def Let_def entries_pushAt)

lemma symmetricIndex_foldl:
  "symmetricIndex idx \<Longrightarrow> symmetricIndex (foldl addConstraint idx cs)"
  by (induction cs arbitrary: idx) (simp_all add: symmetricIndex_addConstraint)

lemma symmetricIndex_buildIndex: "symmetricIndex (buildIndex cs)"
  unfolding buildIndex_def
  by (rule symmetricIndex_foldl) (simp add: symmetricIndex_def emptyIndex_def entries_def)

lemma isSlotAvailable_conflict:
  assumes "Num b \<in> set (entries (courseConflicts idx) (Num (course_id course)))"
    and "slot \<in> set (entries (courseAssignments st) b)"
  shows "\<not> isSlotAvailable idx st course slot roomId"
proof -
  from assms(2) have "someAt (lookupNum (courseAssignments st) (Num b)) (slot_day slot) (slot_timeSlot slot)"
    by (simp add: lookupNum_def someAt_iff)
  with assms(1) show ?thesis by (auto simp: isSlotAvailable_iff)
qed

lemma exclusive_init: "exclusive idx ts (initState g)"
  by (simp add: exclusive_def initState_def entries_def)

lemma isSlotAvailable_others:
  assumes "isSlotAvailable idx st course slot roomId"
    and "Num b \<in> set (entries (courseConflicts idx) (Num (course_id course)))"
  shows "slot \<notin> set (entries (courseAssignments st) b)"
  using assms isSlotAvailable_conflict by blast

lemma exclusive_place:
  assumes x: "exclusive idx ts st" and sym: "symmetricIndex idx"
    and av: "isSlotAvailable idx st course slot (room_id room)"
    and l: "slot_timeSlot slot \<in> set ts"
  shows "exclusive idx ts (place env course room slot e st)"
proof -
  let ?a = "course_id course"
  let ?r = "mkRow env course room (slot_day slot) (slotStart (slot_timeSlot slot)) e"
  have rc: "rowCell ?r = cellOf slot" by (simp add: rowCell_def cellOf_def mkRow_fields)
  from x have x1: "\<forall>r \<in> set (scheduledClasses st).
        rowCell r \<in> cellOf ` set (entries (courseAssignments st) (sc_courseId r))"
    and x2: "\<forall>a. \<forall>s \<in> set (entries (courseAssignments st) a). slot_timeSlot s \<in> set ts"
    and x3: "\<forall>a b. a \<noteq> b \<longrightarrow> Num b \<in> set (entries (courseConflicts idx) (Num a)) \<longrightarrow>
          set (entries (courseAssignments st) a) \<inter> set (entries (courseAssignments st) b) = {}"
    unfolding exclusive_def by blast+
  have free: "\<And>b. Num b \<in> set (entries (courseConflicts idx) (Num ?a)) \<Longrightarrow>
      slot \<notin> set (entries (courseAssignments st) b)"
    using isSlotAvailable_others[OF av] .
  show ?thesis
    unfolding exclusive_def place_fields
  proof (intro conjI allI impI ballI)
    fix r assume "r \<in> set (scheduledClasses st @ [?r])"
    then consider "r \<in> set (scheduledClasses st)" | "r = ?r" by auto
    then show "rowCell r \<in> cellOf ` set (entries (pushAt (courseAssignments st) ?a slot) (sc_courseId r))"
    proof cases
      case 1
      with x1 have "rowCell r \<in> cellOf ` set (entries (courseAssignments st) (sc_courseId r))" by blast
      then show ?thesis by (auto simp: entries_pushAt)
    next
      case 2
      with rc show ?thesis by (simp add: entries_pushAt mkRow_fields)
    qed
  next
    fix a s assume "s \<in> set (entries (pushAt (courseAssignments st) ?a slot) a)"
    with x2 l show "slot_timeSlot s \<in> set ts" by (auto simp: entries_pushAt split: if_splits)
  next
    fix a b :: int
    assume ab: "a \<noteq> b" and c: "Num b \<in> set (entries (courseConflicts idx) (Num a))"
    from sym c have c': "Num a \<in> set (entries (courseConflicts idx) (Num b))"
      unfolding symmetricIndex_def by blast
    from x3 ab c have d: "set (entries (courseAssignments st) a) \<inter> set (entries (courseAssignments st) b) = {}"
      by blast
    show "set (entries (pushAt (courseAssignments st) ?a slot) a)
        \<inter> set (entries (pushAt (courseAssignments st) ?a slot) b) = {}"
    proof (cases "a = ?a")
      case True
      with ab c free have "slot \<notin> set (entries (courseAssignments st) b)" by blast
      with True ab d show ?thesis by (auto simp: entries_pushAt)
    next
      case False
      show ?thesis
      proof (cases "b = ?a")
        case True
        with c' free have "slot \<notin> set (entries (courseAssignments st) a)" by blast
        with True False d show ?thesis by (auto simp: entries_pushAt)
      next
        case b: False
        with False d show ?thesis by (simp add: entries_pushAt)
      qed
    qed
  qed
qed

lemma preserved_exclusive:
  assumes "symmetricIndex (env_index env)"
  shows "preserved env (exclusive (env_index env) (env_timeSlots env))"
  unfolding preserved_def
proof (intro conjI allI impI)
  fix st :: "'a GenState" and course :: Course and room :: Classroom and slot e
  assume "exclusive (env_index env) (env_timeSlots env) st"
    "isSlotAvailable (env_index env) st course slot (room_id room)"
    "slot_timeSlot slot \<in> set (env_timeSlots env)"
    "endsAt (env_timeSlots env) (slot_timeSlot slot) e"
  then show "exclusive (env_index env) (env_timeSlots env) (place env course room slot e st)"
    using assms by (intro exclusive_place)
next
  fix st :: "'a GenState" and g
  assume "exclusive (env_index env) (env_timeSlots env) st"
  then show "exclusive (env_index env) (env_timeSlots env) (st\<lparr> rng := g \<rparr>)"
    by (simp add: exclusive_def)
next
  fix st :: "'a GenState" and w
  assume "exclusive (env_index env) (env_timeSlots env) st"
  then show "exclusive (env_index env) (env_timeSlots env) (warn st w)"
    by (simp add: exclusive_def warn_def)
qed

lemma exclusive_runGenerator:
  assumes "distinct timeSlots"
    and "runGenerator weekDays timeSlots rnd g options = Inr st"
  shows "exclusive (buildIndex (constraints options)) timeSlots st"
proof -
  let ?env = "mkEnv weekDays timeSlots rnd options"
  have e: "env_timeSlots ?env = timeSlots" "env_index ?env = buildIndex (constraints options)"
    by (simp_all add: mkEnv_def)
  from preserved_exclusive[of ?env] symmetricIndex_buildIndex
  have "preserved ?env (exclusive (buildIndex (constraints options)) timeSlots)"
    by (simp add: e)
  from preserved_processCourses[OF this _ exclusive_init] assms show ?thesis
    by (simp add: runGenerator_def Let_def e)
qed

lemma exclusive_rows:
  assumes x: "exclusive idx ts st" and d: "distinct (map slotStart ts)"
    and ab: "a \<noteq> b" and c: "Num b \<in> set (entries (courseConflicts idx) (Num a))"
    and r1: "r1 \<in> set (scheduledClasses st)" "sc_courseId r1 = a"
    and r2: "r2 \<in> set (scheduledClasses st)" "sc_courseId r2 = b"
  shows "rowCell r1 \<noteq> rowCell r2"
proof
  assume eq: "rowCell r1 = rowCell r2"
  from x r1 obtain s1 where s1: "s1 \<in> set (entries (courseAssignments st) a)" "rowCell r1 = cellOf s1"
    unfolding exclusive_def by force
  from x r2 obtain s2 where s2: "s2 \<in> set (entries (courseAssignments st) b)" "rowCell r2 = cellOf s2"
    unfolding exclusive_def by force
  from x s1 s2 have "slot_timeSlot s1 \<in> set ts" "slot_timeSlot s2 \<in> set ts"
    unfolding exclusive_def by blast+
  from cellOf_inj[OF d this] eq s1 s2 have "s1 = s2" by simp
  with s1 s2 have "s1 \<in> set (entries (courseAssignments st) a) \<inter> set (entries (courseAssignments st) b)"
    by simp
  with x ab c show False unfolding exclusive_def by blast
qed

section \<open>Identifiers without a number\<close>



section \<open>Runs with the same shuffles\<close>















section \<open>When a run returns\<close>







section \<open>What the conflict check reports\<close>

lemma dash_split_unique:
  "c \<notin> set a \<Longrightarrow> c \<notin> set b \<Longrightarrow> a @ c # x = b @ c # y \<Longrightarrow> a = b \<and> x = y"
proof (induction a arbitrary: b)
  case Nil
  then show ?case by (cases b) auto
next
  case (Cons h a)
  then show ?case by (cases b) auto
qed

lemma slotKey_inj:
  assumes "plainRow r" and "plainRow r'"
  shows "slotKey r = slotKey r' \<longleftrightarrow> sameTime r r'"
proof
  assume k: "slotKey r = slotKey r'"
  from assms obtain e e' where e: "sc_endTime r = Some e" "sc_endTime r' = Some e'"
    by (auto simp: plainRow_def)
  from k e have "sc_day r @ dash # (sc_startTime r @ dash # e)
      = sc_day r' @ dash # (sc_startTime r' @ dash # e')"
    by (simp add: slotKey_def)
  with assms have d: "sc_day r = sc_day r'"
    and "sc_startTime r @ dash # e = sc_startTime r' @ dash # e'"
    using dash_split_unique[of "dash" "sc_day r" "sc_day r'"]
    by (auto simp: plainRow_def)
  with assms have "sc_startTime r = sc_startTime r'" "e = e'"
    using dash_split_unique[of "dash" "sc_startTime r" "sc_startTime r'" e e']
    by (auto simp: plainRow_def)
  with d e show "sameTime r r'" by (simp add: sameTime_def)
next
  assume "sameTime r r'"
  then show "slotKey r = slotKey r'" by (simp add: sameTime_def slotKey_def)
qed

lemma scan_invariant:
  "\<forall>ref. entries S ref = filter (\<lambda>r. (who r, slotKey r) = ref) seen \<Longrightarrow>
   foldl (scanStep who) (S, C) rows = (S', C') \<Longrightarrow>
   (\<forall>ref. entries S' ref = filter (\<lambda>r. (who r, slotKey r) = ref) (seen @ rows))
   \<and> C' = C @ map (\<lambda>r. (who r, slotKey r))
               (repeatedBy (\<lambda>r' r. (who r', slotKey r') = (who r, slotKey r)) seen rows)"
proof (induction rows arbitrary: S C seen)
  case Nil
  then show ?case by simp
next
  case (Cons r rows)
  let ?ref = "(who r, slotKey r)"
  let ?S1 = "pushAt S ?ref r"
  let ?C1 = "if length (entries ?S1 ?ref) > 1 then C @ [?ref] else C"
  have step: "scanStep who (S, C) r = (?S1, ?C1)" by (simp add: scanStep_def Let_def)
  have inv1: "\<forall>ref. entries ?S1 ref = filter (\<lambda>r. (who r, slotKey r) = ref) (seen @ [r])"
    using Cons.prems(1) by (auto simp: entries_pushAt)
  from Cons.prems(2) have "foldl (scanStep who) (?S1, ?C1) rows = (S', C')"
    by (simp add: step)
  from Cons.IH[OF inv1 this] have
    a: "\<forall>ref. entries S' ref = filter (\<lambda>r. (who r, slotKey r) = ref) ((seen @ [r]) @ rows)"
    and b: "C' = ?C1 @ map (\<lambda>r. (who r, slotKey r))
               (repeatedBy (\<lambda>r' r. (who r', slotKey r') = (who r, slotKey r)) (seen @ [r]) rows)"
    by blast+
  have "length (entries ?S1 ?ref) > 1 \<longleftrightarrow>
      list_ex (\<lambda>r'. (who r', slotKey r') = ?ref) seen"
    using Cons.prems(1) by (simp add: entries_pushAt list_ex_iff filter_empty_conv)
  with a b show ?case by simp
qed

lemma scanConflicts_groups:
  "scanConflicts who rows =
     conflictsBy (\<lambda>r' r. (who r', slotKey r') = (who r, slotKey r)) who rows"
proof -
  obtain S' C' where f: "foldl (scanStep who) (Map.empty, []) rows = (S', C')"
    by (cases "foldl (scanStep who) (Map.empty, []) rows")
  have "\<forall>ref. entries Map.empty ref = filter (\<lambda>r. (who r, slotKey r) = ref) []"
    by (simp add: entries_def)
  from scan_invariant[OF this f] f show ?thesis
    by (simp add: scanConflicts_def conflictsBy_def comp_def)
qed

lemma scanConflicts_key: "scanConflicts who rows = groupedByKey who rows"
  by (simp add: scanConflicts_groups groupedByKey_def)

lemma repeatedBy_cong:
  "\<forall>x \<in> set (seen @ rows). \<forall>y \<in> set (seen @ rows). same1 x y = same2 x y \<Longrightarrow>
   repeatedBy same1 seen rows = repeatedBy same2 seen rows"
proof (induction rows arbitrary: seen)
  case Nil
  then show ?case by simp
next
  case (Cons r rows)
  from Cons.prems have "list_ex (\<lambda>r'. same1 r' r) seen = list_ex (\<lambda>r'. same2 r' r) seen"
    by (auto simp: list_ex_iff)
  moreover from Cons.prems have "repeatedBy same1 (seen @ [r]) rows = repeatedBy same2 (seen @ [r]) rows"
    by (intro Cons.IH) auto
  ultimately show ?case by simp
qed

lemma conflictsBy_cong:
  assumes "\<forall>x \<in> set rows. \<forall>y \<in> set rows. same1 x y = same2 x y"
  shows "conflictsBy same1 who rows = conflictsBy same2 who rows"
proof -
  have r: "repeatedBy same1 [] rows = repeatedBy same2 [] rows"
    using assms by (intro repeatedBy_cong) simp
  have sub: "set (repeatedBy same2 seen rows') \<subseteq> set rows'" for seen rows'
    by (induction rows' arbitrary: seen) auto
  have "\<forall>r \<in> set (repeatedBy same2 [] rows).
      filter (\<lambda>r'. same1 r' r) rows = filter (\<lambda>r'. same2 r' r) rows"
  proof
    fix r assume "r \<in> set (repeatedBy same2 [] rows)"
    with sub have "r \<in> set rows" by blast
    with assms show "filter (\<lambda>r'. same1 r' r) rows = filter (\<lambda>r'. same2 r' r) rows"
      by (intro filter_cong) auto
  qed
  with r show ?thesis by (simp add: conflictsBy_def)
qed

lemma scanConflicts_tuple:
  assumes "\<forall>r \<in> set rows. plainRow r"
  shows "scanConflicts who rows = groupedByTuple who rows"
  unfolding scanConflicts_groups groupedByTuple_def
  using assms by (intro conflictsBy_cong) (auto simp: slotKey_inj)

lemma scanConflicts_pair:
  assumes "who r1 = who r2" and "sameTime r1 r2"
  shows "scanConflicts who [r1, r2] = [\<lparr> conflict_id = who r1, conflict_classes = [r1, r2] \<rparr>]"
proof -
  from assms(2) have "slotKey r1 = slotKey r2" by (simp add: sameTime_def slotKey_def)
  with assms(1) show ?thesis
    by (simp add: scanConflicts_def scanStep_def Let_def entries_pushAt entries_def pushAt_def)
qed

section \<open>The store after a run\<close>

lemma keeps_refl: "keeps h h"
  by (simp add: keeps_def)

lemma keeps_trans: "keeps h h1 \<Longrightarrow> keeps h1 h2 \<Longrightarrow> keeps h h2"
  unfolding keeps_def
  by (metis (no_types, lifting) length_take min.absorb2 nat_le_linear take_all take_take min.commute)

lemma keeps_rooms_alloc:
  "keeps h (h\<lparr> classroomArrays :=
      sortInPlace key (fst (filterNew p (classroomArrays h) a)) (snd (filterNew p (classroomArrays h) a)) \<rparr>)"
  by (simp add: keeps_def sortInPlace_def filterNew_def)

lemma keeps_courses_alloc:
  "keeps h (h\<lparr> courseArrays :=
      sortInPlace key (fst (spreadCopy (courseArrays h) a)) (snd (spreadCopy (courseArrays h) a)) \<rparr>)"
  by (simp add: keeps_def sortInPlace_def spreadCopy_def)

lemma keeps_nth:
  assumes "keeps h h'"
  shows "a < length (courseArrays h) \<Longrightarrow> courseArrays h' ! a = courseArrays h ! a"
    and "b < length (classroomArrays h) \<Longrightarrow> classroomArrays h' ! b = classroomArrays h ! b"
proof -
  from assms have c: "take (length (courseArrays h)) (courseArrays h') = courseArrays h"
    and r: "take (length (classroomArrays h)) (classroomArrays h') = classroomArrays h"
    by (simp_all add: keeps_def)
  show "a < length (courseArrays h) \<Longrightarrow> courseArrays h' ! a = courseArrays h ! a"
    by (metis c nth_take)
  show "b < length (classroomArrays h) \<Longrightarrow> classroomArrays h' ! b = classroomArrays h ! b"
    by (metis r nth_take)
qed

lemma suitable_on_store:
  "sortInPlace room_capacity (fst (filterNew (\<lambda>room. room_capacity room \<ge> course_capacity course) arrs a))
       (snd (filterNew (\<lambda>room. room_capacity room \<ge> course_capacity course) arrs a))
     ! snd (filterNew (\<lambda>room. room_capacity room \<ge> course_capacity course) arrs a)
   = suitableRooms (arrs ! a) course"
  by (simp add: sortInPlace_def filterNew_def suitableRooms_def nth_append)

lemma processCoursesH_refines:
  assumes "env_classrooms env = classroomArrays h0 ! roomsRef"
    and "roomsRef < length (classroomArrays h0)"
  shows "keeps h0 h \<Longrightarrow> processCoursesH env roomsRef cs (h, st) = (h', res) \<Longrightarrow>
    keeps h0 h' \<and> res = processCourses env cs st"
proof (induction cs arbitrary: h st)
  case Nil
  then show ?case by simp
next
  case (Cons c cs)
  let ?p = "\<lambda>room. room_capacity room \<ge> course_capacity c"
  let ?f = "filterNew ?p (classroomArrays h) roomsRef"
  let ?arrs2 = "sortInPlace room_capacity (fst ?f) (snd ?f)"
  let ?h1 = "h\<lparr> classroomArrays := ?arrs2 \<rparr>"
  have k1: "keeps h0 ?h1" using keeps_trans[OF Cons.prems(1) keeps_rooms_alloc] .
  from keeps_nth(2)[OF Cons.prems(1) assms(2)] assms(1)
  have "classroomArrays h ! roomsRef = env_classrooms env" by simp
  with suitable_on_store[of c "classroomArrays h" roomsRef]
  have rooms: "?arrs2 ! snd ?f = suitableRooms (env_classrooms env) c" by simp
  show ?case
  proof (cases "processCourse env st c")
    case (Inl e)
    with Cons.prems(2) rooms k1 show ?thesis
      by (auto simp: processCourse_def Let_def split: prod.splits)
  next
    case (Inr st1)
    with Cons.prems(2) rooms have "processCoursesH env roomsRef cs (?h1, st1) = (h', res)"
      by (auto simp: processCourse_def Let_def split: prod.splits)
    from Cons.IH[OF k1 this] Inr show ?thesis by simp
  qed
qed

lemma runGeneratorH_refines:
  assumes "validRefs h refs"
    and "runGeneratorH weekDays timeSlots rnd g h refs = (h', res)"
  shows "keeps h h'" and "res = runGenerator weekDays timeSlots rnd g (optionsAt h refs)"
proof -
  let ?env = "mkEnv weekDays timeSlots rnd (optionsAt h refs)"
  let ?key = "\<lambda>course. - int (constraintCount (env_index ?env) course)"
  let ?s = "spreadCopy (courseArrays h) (ref_courses refs)"
  let ?arrs2 = "sortInPlace ?key (fst ?s) (snd ?s)"
  let ?h1 = "h\<lparr> courseArrays := ?arrs2 \<rparr>"
  have k1: "keeps h ?h1" by (rule keeps_courses_alloc)
  have sorted: "?arrs2 ! snd ?s = sortedCourses (env_index ?env) (courses (optionsAt h refs))"
    by (simp add: sortInPlace_def spreadCopy_def sortedCourses_def optionsAt_def)
  from assms(2) have p: "processCoursesH ?env (ref_classrooms refs) (?arrs2 ! snd ?s) (?h1, initState g) = (h', res)"
    by (simp add: runGeneratorH_def Let_def split: prod.splits)
  have e: "env_classrooms ?env = classroomArrays h ! ref_classrooms refs"
    by (simp add: mkEnv_def optionsAt_def)
  from assms(1) have v: "ref_classrooms refs < length (classroomArrays h)" by (simp add: validRefs_def)
  from processCoursesH_refines[OF e v k1 p] sorted
  show "keeps h h'" and "res = runGenerator weekDays timeSlots rnd g (optionsAt h refs)"
    by (simp_all add: runGenerator_def Let_def)
qed

section \<open>The scenarios, evaluated\<close>

lemma scenarioW_rows:
  "generateTimetable wdW tsW flipShuffle 0 optionsW =
     Inr [rowW 1 ''Mon'' ''09:00'' ''10:00'', rowW 1 ''Mon'' ''10:00'' ''11:00'',
          rowW 2 ''Tue'' ''10:00'' ''11:00'', rowW 2 ''Tue'' ''09:00'' ''10:00'']"
  by code_simp

lemma scenarioW_starts: "distinct (map slotStart tsW)"
  by code_simp

lemma scenarioW_console:
  "consoleOutput wdW tsW flipShuffle 0 optionsW = [CouldOnlyAssign 2 3 (utf16 ''CS202'')]"
  by code_simp

lemma scenarioW_ids: "distinct (map course_id (courses optionsW))"
  by code_simp

lemma scenarioW_courses: "courseA \<in> set (courses optionsW) \<and> courseB \<in> set (courses optionsW)"
  by (simp add: optionsW_def)

lemma permuting_flipShuffle: "permuting flipShuffle"
  by (simp add: permuting_def flipShuffle_def)

lemma scenarioW_block:
  "\<not> isl (commitBlock envW courseA roomR (utf16 ''Mon'') 0 2 [0..<2] (initState 0))"
  "scheduledClasses (projr (commitBlock envW courseA roomR (utf16 ''Mon'') 0 2 [0..<2] (initState 0))) =
     [rowW 1 ''Mon'' ''09:00'' ''10:00'', rowW 1 ''Mon'' ''10:00'' ''11:00'']"
  by code_simp+

lemma scenario_one_rows:
  "generateTimetable wd5 ts4 flipShuffle 0 optionsOne =
     Inr [rowW 1 ''Monday'' ''11:00'' ''12:00'', rowW 1 ''Monday'' ''12:00'' ''13:00'']"
  by code_simp

lemma scenarioW_conflict:
  "conflictAB \<in> set (constraints optionsW)" "con_type conflictAB = utf16 ''course_conflict''"
  "con_entityId conflictAB = 1"
  by (simp_all add: optionsW_def conflictAB_def)

lemma scenarioW_parse: "parseInt (con_timeSlot conflictAB) = Num 2"
  by code_simp







lemma clashRows_facts:
  "list_all plainRow clashRows"
  "sc_instructorId (rowW 1 ''Mon'' ''09:00'' ''10:00'') = sc_instructorId (rowW 2 ''Mon'' ''09:00'' ''10:00'')"
  "sameTime (rowW 1 ''Mon'' ''09:00'' ''10:00'') (rowW 2 ''Mon'' ''09:00'' ''10:00'')"
  "groupedByTuple sc_instructorId clashRows =
     [\<lparr> conflict_id = 7, conflict_classes = clashRows \<rparr>]"
  "groupedByTuple sc_classroomId clashRows =
     [\<lparr> conflict_id = 5, conflict_classes = clashRows \<rparr>]"
  by code_simp+

lemma heapW_valid: "validRefs heapW refsW"
  by (simp add: validRefs_def heapW_def refsW_def)

lemma heapW_after:
  "courseArrays (fst (runGeneratorH wdW tsW flipShuffle 0 heapW refsW)) =
     [[courseA, courseB], [courseB, courseA]]"
  "classroomArrays (fst (runGeneratorH wdW tsW flipShuffle 0 heapW refsW)) =
     [[roomBig, roomR], [roomR, roomBig], [roomR, roomBig]]"
  by code_simp+

lemma scenarioW_clock: "chronological hourOf tsW"
  by code_simp




lemma hourOf_values:
  "hourOf (utf16 ''09:00'') = 9" "hourOf (utf16 ''10:00'') = 10"
  "hourOf (utf16 ''11:00'') = 11" "hourOf (utf16 ''13:00'') = 13"
  by code_simp+

lemma scenarioU_labels: "disjointLabels hourOf tsU" "distinct (map slotStart tsU)"
  by code_simp+

lemma scenarioU_rows:
  "generateTimetable wdW tsU flipShuffle 0 optionsU =
     Inr [rowW 3 ''Mon'' ''09:00'' ''13:00'', rowW 3 ''Mon'' ''13:00'' ''10:00'',
          rowW 3 ''Mon'' ''10:00'' ''11:00'']"
  by code_simp

lemma scenarioU_overlap:
  "overlap hourOf (rowW 3 ''Mon'' ''09:00'' ''13:00'') (rowW 3 ''Mon'' ''10:00'' ''11:00'')"
  by (simp add: overlap_def rowW_def hourOf_values)

lemma scenarioDup_rows:
  "generateTimetable wdW tsW flipShuffle 0 optionsDup =
     Inr [rowW 1 ''Mon'' ''10:00'' ''11:00'', rowW 1 ''Mon'' ''09:00'' ''10:00'']"
  "consoleOutput wdW tsW flipShuffle 0 optionsDup = []"
  by code_simp+

lemma scenarioDup_course:
  "courseD \<in> set (courses optionsDup)" "slotsNeeded courseD = 1" "course_id courseD = 1"
  by (simp_all add: optionsDup_def courseD_def slotsNeeded_def)

lemma dashRows_facts:
  "sc_instructorId (rowW 1 ''Mon-Wed'' ''09:00'' ''10:00'')
     = sc_instructorId (rowW 2 ''Mon'' ''Wed-09:00'' ''10:00'')"
  "sc_day (rowW 1 ''Mon-Wed'' ''09:00'' ''10:00'') \<noteq> sc_day (rowW 2 ''Mon'' ''Wed-09:00'' ''10:00'')"
  "groupedByTuple sc_instructorId dashRows = []"
  "instructorConflicts (checkConflicts dashRows) =
     [\<lparr> conflict_id = 7, conflict_classes = dashRows \<rparr>]"
  by code_simp+
section \<open>No double booking, stated\<close>

text \<open>
  C1, as the claim states it, fails. The labels \<open>09:00-10:00\<close>, \<open>13:00-14:00\<close> and
  \<open>10:00-11:00\<close> are pairwise non-overlapping, and a course of three slots is placed
  in the block of all three. Each row of a block but the last ends where the next
  listed label starts, so the rows are \<open>09:00\<close> to \<open>13:00\<close>, \<open>13:00\<close> to \<open>10:00\<close> and
  \<open>10:00\<close> to \<open>11:00\<close>: the first and the third are rows of one instructor and one
  classroom on one day that overlap in time.
\<close>

theorem unordered_labels_counterexample:
  "disjointLabels hourOf tsU
   \<and> generateTimetable wdW tsU flipShuffle 0 optionsU =
       Inr [rowW 3 ''Mon'' ''09:00'' ''13:00'', rowW 3 ''Mon'' ''13:00'' ''10:00'',
            rowW 3 ''Mon'' ''10:00'' ''11:00'']
   \<and> sc_instructorId (rowW 3 ''Mon'' ''09:00'' ''13:00'')
       = sc_instructorId (rowW 3 ''Mon'' ''10:00'' ''11:00'')
   \<and> sc_classroomId (rowW 3 ''Mon'' ''09:00'' ''13:00'')
       = sc_classroomId (rowW 3 ''Mon'' ''10:00'' ''11:00'')
   \<and> sc_day (rowW 3 ''Mon'' ''09:00'' ''13:00'') = sc_day (rowW 3 ''Mon'' ''10:00'' ''11:00'')
   \<and> overlap hourOf (rowW 3 ''Mon'' ''09:00'' ''13:00'') (rowW 3 ''Mon'' ''10:00'' ''11:00'')"
  using scenarioU_labels(1) scenarioU_rows scenarioU_overlap by (simp add: rowW_def)

text \<open>
  C1, amended. No double booking. In every schedule that \<open>generateTimetable\<close> returns,
  for every input and every behaviour of the randomness source: when the configured
  labels have pairwise different start times, every cell of the grid is used at most
  once per instructor and at most once per classroom (no two rows have the same
  instructor, day and start time, and no two have the same classroom, day and start
  time); and when the labels are non-overlapping intervals listed in the order of the
  clock (under a reading \<open>clock\<close> of the time strings, every label ends after it starts
  and no later than the next listed label starts), every row has an end time and no two
  rows of one instructor, or of one classroom, on the same day overlap in time.
\<close>

theorem no_double_booking:
  assumes "generateTimetable weekDays timeSlots rnd g options = Inr rows"
  shows "(distinct (map slotStart timeSlots) \<longrightarrow>
            distinct (map (\<lambda>r. (sc_instructorId r, sc_day r, sc_startTime r)) rows)
          \<and> distinct (map (\<lambda>r. (sc_classroomId r, sc_day r, sc_startTime r)) rows))
       \<and> (chronological clock timeSlots \<longrightarrow>
            list_all (\<lambda>r. sc_endTime r \<noteq> None) rows
          \<and> (\<forall>i j. i < j \<and> j < length rows \<and> sc_day (rows ! i) = sc_day (rows ! j)
                 \<and> (sc_instructorId (rows ! i) = sc_instructorId (rows ! j)
                    \<or> sc_classroomId (rows ! i) = sc_classroomId (rows ! j))
                 \<longrightarrow> \<not> overlap clock (rows ! i) (rows ! j)))"
proof -
  from assms obtain st where st: "runGenerator weekDays timeSlots rnd g options = Inr st"
    and rows: "rows = scheduledClasses st"
    by (auto simp: generateTimetable_def split: sum.splits)
  have cells: "distinct (map (\<lambda>r. (sc_instructorId r, sc_day r, sc_startTime r)) rows)
      \<and> distinct (map (\<lambda>r. (sc_classroomId r, sc_day r, sc_startTime r)) rows)"
    if "distinct (map slotStart timeSlots)"
    using booked_runGenerator[OF that st] by (simp add: booked_def rows rowCell_def)
  have times: "list_all (\<lambda>r. sc_endTime r \<noteq> None) rows
      \<and> (\<forall>i j. i < j \<and> j < length rows \<and> sc_day (rows ! i) = sc_day (rows ! j)
             \<and> (sc_instructorId (rows ! i) = sc_instructorId (rows ! j)
                \<or> sc_classroomId (rows ! i) = sc_classroomId (rows ! j))
             \<longrightarrow> \<not> overlap clock (rows ! i) (rows ! j))"
    if c: "chronological clock timeSlots"
  proof -
    from chronological_distinct[OF c] have d: "distinct (map slotStart timeSlots)" .
    then have "distinct timeSlots" by (simp add: distinct_map)
    from timed_runGenerator[OF this st] have t: "\<forall>r \<in> set rows.
        \<exists>i<length timeSlots. sc_startTime r = slotStart (timeSlots ! i)
          \<and> endsAt timeSlots (timeSlots ! i) (sc_endTime r)"
      by (simp add: timed_def rows)
    then have "\<forall>r \<in> set rows. sc_endTime r \<noteq> None"
      using timed_ends[OF c] by blast
    then have "list_all (\<lambda>r. sc_endTime r \<noteq> None) rows"
      by (simp add: list_all_iff)
    moreover have "\<not> overlap clock (rows ! i) (rows ! j)"
      if ij: "i < j" "j < length rows" and day: "sc_day (rows ! i) = sc_day (rows ! j)"
        and who: "sc_instructorId (rows ! i) = sc_instructorId (rows ! j)
                    \<or> sc_classroomId (rows ! i) = sc_classroomId (rows ! j)" for i j
    proof -
      from ij have ne: "i \<noteq> j" and li: "i < length rows" by auto
      from cells[OF d] have di: "distinct (map (\<lambda>r. (sc_instructorId r, sc_day r, sc_startTime r)) rows)"
        and dr: "distinct (map (\<lambda>r. (sc_classroomId r, sc_day r, sc_startTime r)) rows)" by simp_all
      from di ne li ij(2) have "(sc_instructorId (rows ! i), sc_day (rows ! i), sc_startTime (rows ! i))
          \<noteq> (sc_instructorId (rows ! j), sc_day (rows ! j), sc_startTime (rows ! j))"
        by (simp add: distinct_conv_nth)
      moreover from dr ne li ij(2) have "(sc_classroomId (rows ! i), sc_day (rows ! i), sc_startTime (rows ! i))
          \<noteq> (sc_classroomId (rows ! j), sc_day (rows ! j), sc_startTime (rows ! j))"
        by (simp add: distinct_conv_nth)
      ultimately have "sc_startTime (rows ! i) \<noteq> sc_startTime (rows ! j)"
        using day who by auto
      moreover from t li ij(2) have
        "\<exists>n<length timeSlots. sc_startTime (rows ! i) = slotStart (timeSlots ! n)
          \<and> endsAt timeSlots (timeSlots ! n) (sc_endTime (rows ! i))"
        "\<exists>n<length timeSlots. sc_startTime (rows ! j) = slotStart (timeSlots ! n)
          \<and> endsAt timeSlots (timeSlots ! n) (sc_endTime (rows ! j))"
        by simp_all
      ultimately show ?thesis using timed_no_overlap[OF c] by blast
    qed
    ultimately show ?thesis by blast
  qed
  from cells times show ?thesis by blast
qed

theorem no_double_booking_witness:
  "generateTimetable wdW tsW flipShuffle 0 optionsW =
       Inr [rowW 1 ''Mon'' ''09:00'' ''10:00'', rowW 1 ''Mon'' ''10:00'' ''11:00'',
            rowW 2 ''Tue'' ''10:00'' ''11:00'', rowW 2 ''Tue'' ''09:00'' ''10:00'']
   \<and> distinct (map slotStart tsW) \<and> chronological hourOf tsW
   \<and> distinct (map (\<lambda>r. (sc_instructorId r, sc_day r, sc_startTime r))
        [rowW 1 ''Mon'' ''09:00'' ''10:00'', rowW 1 ''Mon'' ''10:00'' ''11:00'',
         rowW 2 ''Tue'' ''10:00'' ''11:00'', rowW 2 ''Tue'' ''09:00'' ''10:00''])
   \<and> distinct (map (\<lambda>r. (sc_classroomId r, sc_day r, sc_startTime r))
        [rowW 1 ''Mon'' ''09:00'' ''10:00'', rowW 1 ''Mon'' ''10:00'' ''11:00'',
         rowW 2 ''Tue'' ''10:00'' ''11:00'', rowW 2 ''Tue'' ''09:00'' ''10:00''])
   \<and> \<not> overlap hourOf (rowW 1 ''Mon'' ''09:00'' ''10:00'') (rowW 1 ''Mon'' ''10:00'' ''11:00'')"
proof -
  note t = no_double_booking[OF scenarioW_rows, of hourOf]
  have "(0::nat) < 1 \<and> 1 < length [rowW 1 ''Mon'' ''09:00'' ''10:00'', rowW 1 ''Mon'' ''10:00'' ''11:00'',
            rowW 2 ''Tue'' ''10:00'' ''11:00'', rowW 2 ''Tue'' ''09:00'' ''10:00'']
      \<and> sc_day ([rowW 1 ''Mon'' ''09:00'' ''10:00'', rowW 1 ''Mon'' ''10:00'' ''11:00'',
            rowW 2 ''Tue'' ''10:00'' ''11:00'', rowW 2 ''Tue'' ''09:00'' ''10:00''] ! 0)
         = sc_day ([rowW 1 ''Mon'' ''09:00'' ''10:00'', rowW 1 ''Mon'' ''10:00'' ''11:00'',
            rowW 2 ''Tue'' ''10:00'' ''11:00'', rowW 2 ''Tue'' ''09:00'' ''10:00''] ! 1)
      \<and> (sc_instructorId ([rowW 1 ''Mon'' ''09:00'' ''10:00'', rowW 1 ''Mon'' ''10:00'' ''11:00'',
            rowW 2 ''Tue'' ''10:00'' ''11:00'', rowW 2 ''Tue'' ''09:00'' ''10:00''] ! 0)
         = sc_instructorId ([rowW 1 ''Mon'' ''09:00'' ''10:00'', rowW 1 ''Mon'' ''10:00'' ''11:00'',
            rowW 2 ''Tue'' ''10:00'' ''11:00'', rowW 2 ''Tue'' ''09:00'' ''10:00''] ! 1)
        \<or> sc_classroomId ([rowW 1 ''Mon'' ''09:00'' ''10:00'', rowW 1 ''Mon'' ''10:00'' ''11:00'',
            rowW 2 ''Tue'' ''10:00'' ''11:00'', rowW 2 ''Tue'' ''09:00'' ''10:00''] ! 0)
         = sc_classroomId ([rowW 1 ''Mon'' ''09:00'' ''10:00'', rowW 1 ''Mon'' ''10:00'' ''11:00'',
            rowW 2 ''Tue'' ''10:00'' ''11:00'', rowW 2 ''Tue'' ''09:00'' ''10:00''] ! 1))"
    by (simp add: rowW_def)
  with t scenarioW_clock
  have "\<not> overlap hourOf
      ([rowW 1 ''Mon'' ''09:00'' ''10:00'', rowW 1 ''Mon'' ''10:00'' ''11:00'',
            rowW 2 ''Tue'' ''10:00'' ''11:00'', rowW 2 ''Tue'' ''09:00'' ''10:00''] ! 0)
      ([rowW 1 ''Mon'' ''09:00'' ''10:00'', rowW 1 ''Mon'' ''10:00'' ''11:00'',
            rowW 2 ''Tue'' ''10:00'' ''11:00'', rowW 2 ''Tue'' ''09:00'' ''10:00''] ! 1)"
    by blast
  then have "\<not> overlap hourOf (rowW 1 ''Mon'' ''09:00'' ''10:00'') (rowW 1 ''Mon'' ''10:00'' ''11:00'')"
    by simp
  with t scenarioW_starts scenarioW_clock scenarioW_rows show ?thesis by blast
qed

section \<open>Courses are never over-scheduled\<close>

text \<open>
  C10, as the claim states it, fails for an input in which two course records carry the
  same id: each record of one slot is placed once, so the schedule holds two rows with
  that id, more than the one slot either record needs.
\<close>

theorem duplicate_ids_counterexample:
  "courseD \<in> set (courses optionsDup) \<and> slotsNeeded courseD = 1
   \<and> generateTimetable wdW tsW flipShuffle 0 optionsDup =
       Inr [rowW 1 ''Mon'' ''10:00'' ''11:00'', rowW 1 ''Mon'' ''09:00'' ''10:00'']
   \<and> length (filter (\<lambda>r. sc_courseId r = course_id courseD)
         [rowW 1 ''Mon'' ''10:00'' ''11:00'', rowW 1 ''Mon'' ''09:00'' ''10:00'']) = 2"
  using scenarioDup_course scenarioDup_rows(1) by (simp add: rowW_def)

text \<open>
  C10, amended. Courses are never over-scheduled: for every input whose courses have
  pairwise different ids and every course of it, a returned schedule holds at most
  \<open>slotsNeeded\<close> rows that carry the course's id. The turn of a course appends exactly
  \<open>slotsNeeded\<close> rows when the contiguous phase succeeds and at most \<open>slotsNeeded\<close>
  rows in the scattered phase, whatever the ids (lemmas \<open>tryRooms_appended\<close> and
  \<open>scatterRooms_appended\<close>).
\<close>

theorem never_over_scheduled:
  assumes "distinct (map course_id (courses options))"
    and "course \<in> set (courses options)"
    and "generateTimetable weekDays timeSlots rnd g options = Inr rows"
  shows "length (filter (\<lambda>r. sc_courseId r = course_id course) rows) \<le> slotsNeeded course"
proof -
  from assms(3) obtain st where st: "runGenerator weekDays timeSlots rnd g options = Inr st"
    and rows: "rows = scheduledClasses st"
    by (auto simp: generateTimetable_def split: sum.splits)
  from runGenerator_outcome(2)[OF assms(1) st] assms(2) show ?thesis
    by (simp add: rows rowsFor_def)
qed

theorem never_over_scheduled_witness:
  "distinct (map course_id (courses optionsW)) \<and> courseB \<in> set (courses optionsW)
   \<and> generateTimetable wdW tsW flipShuffle 0 optionsW =
       Inr [rowW 1 ''Mon'' ''09:00'' ''10:00'', rowW 1 ''Mon'' ''10:00'' ''11:00'',
            rowW 2 ''Tue'' ''10:00'' ''11:00'', rowW 2 ''Tue'' ''09:00'' ''10:00'']
   \<and> length (filter (\<lambda>r. sc_courseId r = course_id courseB)
         [rowW 1 ''Mon'' ''09:00'' ''10:00'', rowW 1 ''Mon'' ''10:00'' ''11:00'',
          rowW 2 ''Tue'' ''10:00'' ''11:00'', rowW 2 ''Tue'' ''09:00'' ''10:00''])
       \<le> slotsNeeded courseB"
  using never_over_scheduled[OF scenarioW_ids _ scenarioW_rows, of courseB]
    scenarioW_ids scenarioW_courses scenarioW_rows
  by blast

section \<open>The number of slots of a course\<close>



section \<open>Under-scheduling is reported on the console\<close>

text \<open>
  C2, as the claim states it, fails: the function returns the rows alone. With one
  course and no classroom the returned value is the empty schedule, the very value
  returned when there is no course at all; the record of the course that got 0 of its 2
  slots is written to the console and is not part of the result.
\<close>

theorem diagnostics_counterexample:
  "generateTimetable wdW tsW flipShuffle 0 optionsNoRoom = Inr []
   \<and> generateTimetable wdW tsW flipShuffle 0 optionsNoCourse = Inr []
   \<and> slotsNeeded courseA = 2
   \<and> consoleOutput wdW tsW flipShuffle 0 optionsNoRoom = [NoSuitableRooms (utf16 ''CS101'')]"
  by code_simp

text \<open>
  C2, amended. \<open>generateTimetable\<close> returns the schedule only; under-scheduling is
  reported as a logging side effect. For an input whose courses have pairwise different
  ids, the console receives exactly one warning for every course that was placed in
  fewer than its \<open>slotsNeeded\<close> slots, in the order in which the courses are processed:
  \<open>No suitable rooms\<close> when no classroom has sufficient capacity, and otherwise
  \<open>Could only assign\<close> with the number of rows achieved and \<open>slotsNeeded\<close>.
\<close>

theorem under_scheduling_is_logged:
  assumes "distinct (map course_id (courses options))"
    and "generateTimetable weekDays timeSlots rnd g options = Inr rows"
  shows "consoleOutput weekDays timeSlots rnd g options =
     map (\<lambda>c. warningFor (classrooms options) c (rowsFor (course_id c) rows))
       (filter (\<lambda>c. rowsFor (course_id c) rows < slotsNeeded c)
          (sortedCourses (buildIndex (constraints options)) (courses options)))"
proof -
  from assms(2) obtain st where st: "runGenerator weekDays timeSlots rnd g options = Inr st"
    and rows: "rows = scheduledClasses st"
    by (auto simp: generateTimetable_def split: sum.splits)
  from runGenerator_outcome(1)[OF assms(1) st] show ?thesis
    by (simp add: consoleOutput_def st rows)
qed

theorem under_scheduling_is_logged_witness:
  "distinct (map course_id (courses optionsW))
   \<and> generateTimetable wdW tsW flipShuffle 0 optionsW =
       Inr [rowW 1 ''Mon'' ''09:00'' ''10:00'', rowW 1 ''Mon'' ''10:00'' ''11:00'',
            rowW 2 ''Tue'' ''10:00'' ''11:00'', rowW 2 ''Tue'' ''09:00'' ''10:00'']
   \<and> consoleOutput wdW tsW flipShuffle 0 optionsW = [CouldOnlyAssign 2 3 (utf16 ''CS202'')]
   \<and> map (\<lambda>c. warningFor (classrooms optionsW) c (rowsFor (course_id c)
            [rowW 1 ''Mon'' ''09:00'' ''10:00'', rowW 1 ''Mon'' ''10:00'' ''11:00'',
             rowW 2 ''Tue'' ''10:00'' ''11:00'', rowW 2 ''Tue'' ''09:00'' ''10:00'']))
       (filter (\<lambda>c. rowsFor (course_id c)
            [rowW 1 ''Mon'' ''09:00'' ''10:00'', rowW 1 ''Mon'' ''10:00'' ''11:00'',
             rowW 2 ''Tue'' ''10:00'' ''11:00'', rowW 2 ''Tue'' ''09:00'' ''10:00'']
             < slotsNeeded c)
          (sortedCourses (buildIndex (constraints optionsW)) (courses optionsW)))
     = [CouldOnlyAssign 2 3 (utf16 ''CS202'')]"
  using under_scheduling_is_logged[OF scenarioW_ids scenarioW_rows]
    scenarioW_ids scenarioW_rows scenarioW_console
  by simp

section \<open>The rows of a contiguous block\<close>

text \<open>
  C6. Whenever the contiguous phase commits a course that needs \<open>k\<close> slots at start
  position \<open>i\<close> on day \<open>day\<close> in room \<open>room\<close>, it appends \<open>k\<close> rows, all on that
  day, in that room and for that course and instructor; row \<open>j\<close> starts at the start
  time of slot \<open>i + j\<close>, every row but the last ends where the next row starts, and the
  last row ends at the end time of slot \<open>i + k - 1\<close>. In the scenario of one course of
  three credits, one room and a grid of five days and four slots without constraints,
  every run whose shuffles are permutations returns exactly two rows, on one day, the
  first ending where the second starts.
\<close>

theorem contiguous_block_rows:
  "(commitBlock env course room day i k [0..<k] st = Inr st' \<longrightarrow>
      (\<exists>new. scheduledClasses st' = scheduledClasses st @ new \<and> length new = k
         \<and> list_all (\<lambda>r. sc_day r = day \<and> sc_classroomId r = room_id room
                         \<and> sc_courseId r = course_id course
                         \<and> sc_instructorId r = course_instructorId course) new
         \<and> (\<forall>j<k. sc_startTime (new ! j) = slotStart (env_timeSlots env ! (i + j)))
         \<and> (\<forall>j. j + 1 < k \<longrightarrow> sc_endTime (new ! j) = Some (sc_startTime (new ! (j + 1))))
         \<and> (0 < k \<longrightarrow> sc_endTime (new ! (k - 1)) = slotEnd (env_timeSlots env ! (i + k - 1)))))
   \<and> (permuting rnd \<longrightarrow>
        (\<exists>d n. d \<in> set wd5 \<and> n < 3 \<and>
           generateTimetable wd5 ts4 rnd g optionsOne =
             Inr [\<lparr> sc_id = 0, sc_courseId = 1, sc_instructorId = 7, sc_classroomId = 5,
                     sc_day = d, sc_startTime = slotStart (ts4 ! n),
                     sc_endTime = Some (slotStart (ts4 ! (n + 1))), sc_timetableId = 9 \<rparr>,
                  \<lparr> sc_id = 0, sc_courseId = 1, sc_instructorId = 7, sc_classroomId = 5,
                     sc_day = d, sc_startTime = slotStart (ts4 ! (n + 1)),
                     sc_endTime = slotEnd (ts4 ! (n + 1)), sc_timetableId = 9 \<rparr>]))"
  using contiguous_rows_general[of env course room day i k st st']
    scenario_one_course[of rnd g]
  by blast

theorem contiguous_block_rows_witness:
  "commitBlock envW courseA roomR (utf16 ''Mon'') 0 2 [0..<2] (initState 0) =
     Inr (projr (commitBlock envW courseA roomR (utf16 ''Mon'') 0 2 [0..<2] (initState 0)))
   \<and> scheduledClasses (projr (commitBlock envW courseA roomR (utf16 ''Mon'') 0 2 [0..<2] (initState 0))) =
       [rowW 1 ''Mon'' ''09:00'' ''10:00'', rowW 1 ''Mon'' ''10:00'' ''11:00'']
   \<and> (\<exists>new. scheduledClasses (projr (commitBlock envW courseA roomR (utf16 ''Mon'') 0 2 [0..<2] (initState 0)))
             = scheduledClasses (initState (0::nat)) @ new \<and> length new = 2
         \<and> list_all (\<lambda>r. sc_day r = utf16 ''Mon'' \<and> sc_classroomId r = room_id roomR
                         \<and> sc_courseId r = course_id courseA
                         \<and> sc_instructorId r = course_instructorId courseA) new
         \<and> (\<forall>j<2. sc_startTime (new ! j) = slotStart (env_timeSlots envW ! (0 + j)))
         \<and> (\<forall>j. j + 1 < 2 \<longrightarrow> sc_endTime (new ! j) = Some (sc_startTime (new ! (j + 1))))
         \<and> (0 < (2::nat) \<longrightarrow> sc_endTime (new ! (2 - 1)) = slotEnd (env_timeSlots envW ! (0 + 2 - 1))))
   \<and> permuting flipShuffle
   \<and> generateTimetable wd5 ts4 flipShuffle 0 optionsOne =
       Inr [rowW 1 ''Monday'' ''11:00'' ''12:00'', rowW 1 ''Monday'' ''12:00'' ''13:00'']
   \<and> (\<exists>d n. d \<in> set wd5 \<and> n < 3 \<and>
           generateTimetable wd5 ts4 flipShuffle 0 optionsOne =
             Inr [\<lparr> sc_id = 0, sc_courseId = 1, sc_instructorId = 7, sc_classroomId = 5,
                     sc_day = d, sc_startTime = slotStart (ts4 ! n),
                     sc_endTime = Some (slotStart (ts4 ! (n + 1))), sc_timetableId = 9 \<rparr>,
                  \<lparr> sc_id = 0, sc_courseId = 1, sc_instructorId = 7, sc_classroomId = 5,
                     sc_day = d, sc_startTime = slotStart (ts4 ! (n + 1)),
                     sc_endTime = slotEnd (ts4 ! (n + 1)), sc_timetableId = 9 \<rparr>])"
proof -
  have c: "commitBlock envW courseA roomR (utf16 ''Mon'') 0 2 [0..<2] (initState 0) =
     Inr (projr (commitBlock envW courseA roomR (utf16 ''Mon'') 0 2 [0..<2] (initState 0)))"
    using scenarioW_block(1) by simp
  from contiguous_block_rows[of envW courseA roomR "utf16 ''Mon''" 0 2 "initState 0"
      "projr (commitBlock envW courseA roomR (utf16 ''Mon'') 0 2 [0..<2] (initState 0))" flipShuffle 0]
    c permuting_flipShuffle scenarioW_block(2) scenario_one_rows
  show ?thesis by blast
qed

section \<open>Conflicts are symmetric\<close>

text \<open>
  C5. Every \<open>course_conflict\<close> record naming course A (\<open>entityId\<close>) and course B (the
  parsed \<open>timeSlot\<close> field) puts B into A's conflict list and A into B's, even when it is
  the only record about the pair. Placement treats the two as mutually exclusive in both
  directions: a slot that B occupies is not available to A, a slot that A occupies is not
  available to B, and in a returned schedule (labels with pairwise different start
  times, A and B different courses) no row of A stands in the same cell as a row of B.
\<close>

theorem conflict_symmetry:
  assumes "c \<in> set (constraints options)" and "con_type c = utf16 ''course_conflict''"
  shows "parseInt (con_timeSlot c)
           \<in> set (entries (courseConflicts (buildIndex (constraints options))) (Num (con_entityId c)))
       \<and> Num (con_entityId c)
           \<in> set (entries (courseConflicts (buildIndex (constraints options))) (parseInt (con_timeSlot c)))
       \<and> (\<forall>b. parseInt (con_timeSlot c) = Num b \<longrightarrow>
            (\<forall>st slot roomId courseA' courseB'.
               course_id courseA' = con_entityId c \<longrightarrow> course_id courseB' = b \<longrightarrow>
               (slot \<in> set (entries (courseAssignments st) b) \<longrightarrow>
                  \<not> isSlotAvailable (buildIndex (constraints options)) st courseA' slot roomId)
             \<and> (slot \<in> set (entries (courseAssignments st) (con_entityId c)) \<longrightarrow>
                  \<not> isSlotAvailable (buildIndex (constraints options)) st courseB' slot roomId))
          \<and> (b \<noteq> con_entityId c \<longrightarrow> distinct (map slotStart timeSlots) \<longrightarrow>
               (\<forall>rows. generateTimetable weekDays timeSlots rnd g options = Inr rows \<longrightarrow>
                  (\<forall>r1 \<in> set rows. \<forall>r2 \<in> set rows.
                     sc_courseId r1 = con_entityId c \<longrightarrow> sc_courseId r2 = b \<longrightarrow>
                     \<not> (sc_day r1 = sc_day r2 \<and> sc_startTime r1 = sc_startTime r2)))))"
proof -
  let ?idx = "buildIndex (constraints options)"
  let ?a = "con_entityId c"
  from foldl_addConstraint_conflict[OF assms, of emptyIndex]
  have i1: "parseInt (con_timeSlot c) \<in> set (entries (courseConflicts ?idx) (Num ?a))"
    and i2: "Num ?a \<in> set (entries (courseConflicts ?idx) (parseInt (con_timeSlot c)))"
    by (simp_all add: buildIndex_def)
  have "\<forall>b. parseInt (con_timeSlot c) = Num b \<longrightarrow>
            (\<forall>(st :: 'a GenState) slot roomId courseA' courseB'.
               course_id courseA' = ?a \<longrightarrow> course_id courseB' = b \<longrightarrow>
               (slot \<in> set (entries (courseAssignments st) b) \<longrightarrow>
                  \<not> isSlotAvailable ?idx st courseA' slot roomId)
             \<and> (slot \<in> set (entries (courseAssignments st) ?a) \<longrightarrow>
                  \<not> isSlotAvailable ?idx st courseB' slot roomId))
          \<and> (b \<noteq> ?a \<longrightarrow> distinct (map slotStart timeSlots) \<longrightarrow>
               (\<forall>rows. generateTimetable weekDays timeSlots (rnd :: 'b shuffler) g options = Inr rows \<longrightarrow>
                  (\<forall>r1 \<in> set rows. \<forall>r2 \<in> set rows.
                     sc_courseId r1 = ?a \<longrightarrow> sc_courseId r2 = b \<longrightarrow>
                     \<not> (sc_day r1 = sc_day r2 \<and> sc_startTime r1 = sc_startTime r2))))"
  proof (intro allI impI conjI ballI)
    fix b and st :: "'a GenState" and slot roomId and courseA' courseB' :: Course
    assume b: "parseInt (con_timeSlot c) = Num b" and ca: "course_id courseA' = ?a"
      and cb: "course_id courseB' = b"
    {
      assume "slot \<in> set (entries (courseAssignments st) b)"
      with i1 b ca show "\<not> isSlotAvailable ?idx st courseA' slot roomId"
        by (intro isSlotAvailable_conflict[where b = b]) simp_all
    }
    {
      assume "slot \<in> set (entries (courseAssignments st) ?a)"
      with i2 b cb show "\<not> isSlotAvailable ?idx st courseB' slot roomId"
        by (intro isSlotAvailable_conflict[where b = ?a]) simp_all
    }
  next
    fix b rows r1 r2
    assume b: "parseInt (con_timeSlot c) = Num b" and ne: "b \<noteq> ?a"
      and d: "distinct (map slotStart timeSlots)"
      and gen: "generateTimetable weekDays timeSlots (rnd :: 'b shuffler) g options = Inr rows"
      and r: "r1 \<in> set rows" "r2 \<in> set rows" "sc_courseId r1 = ?a" "sc_courseId r2 = b"
    from gen obtain st where st: "runGenerator weekDays timeSlots rnd g options = Inr st"
      and rows: "rows = scheduledClasses st"
      by (auto simp: generateTimetable_def split: sum.splits)
    from d have "distinct timeSlots" by (simp add: distinct_map)
    from exclusive_runGenerator[OF this st] have x: "exclusive ?idx timeSlots st" .
    from ne have "?a \<noteq> b" by simp
    from exclusive_rows[OF x d this _ _ r(3) _ r(4)] i1 b r(1,2) rows
    have "rowCell r1 \<noteq> rowCell r2" by simp
    then show "\<not> (sc_day r1 = sc_day r2 \<and> sc_startTime r1 = sc_startTime r2)"
      by (simp add: rowCell_def)
  qed
  with i1 i2 show ?thesis by blast
qed

theorem conflict_symmetry_witness:
  "conflictAB \<in> set (constraints optionsW) \<and> con_type conflictAB = utf16 ''course_conflict''
   \<and> con_entityId conflictAB = 1 \<and> parseInt (con_timeSlot conflictAB) = Num 2
   \<and> Num 2 \<in> set (entries (courseConflicts (buildIndex (constraints optionsW))) (Num 1))
   \<and> Num 1 \<in> set (entries (courseConflicts (buildIndex (constraints optionsW))) (Num 2))
   \<and> distinct (map slotStart tsW)
   \<and> generateTimetable wdW tsW flipShuffle 0 optionsW =
       Inr [rowW 1 ''Mon'' ''09:00'' ''10:00'', rowW 1 ''Mon'' ''10:00'' ''11:00'',
            rowW 2 ''Tue'' ''10:00'' ''11:00'', rowW 2 ''Tue'' ''09:00'' ''10:00'']
   \<and> \<not> (sc_day (rowW 1 ''Mon'' ''09:00'' ''10:00'') = sc_day (rowW 2 ''Tue'' ''09:00'' ''10:00'')
          \<and> sc_startTime (rowW 1 ''Mon'' ''09:00'' ''10:00'')
              = sc_startTime (rowW 2 ''Tue'' ''09:00'' ''10:00''))"
proof -
  note t = conflict_symmetry[OF scenarioW_conflict(1,2), of tsW wdW flipShuffle 0,
      unfolded scenarioW_conflict(3) scenarioW_parse]
  from t have "Num 2 \<in> set (entries (courseConflicts (buildIndex (constraints optionsW))) (Num 1))"
    and "Num 1 \<in> set (entries (courseConflicts (buildIndex (constraints optionsW))) (Num 2))"
    by blast+
  moreover have "(2::int) \<noteq> 1" by simp
  with t scenarioW_starts scenarioW_rows
  have "\<forall>r1 \<in> set [rowW 1 ''Mon'' ''09:00'' ''10:00'', rowW 1 ''Mon'' ''10:00'' ''11:00'',
            rowW 2 ''Tue'' ''10:00'' ''11:00'', rowW 2 ''Tue'' ''09:00'' ''10:00''].
        \<forall>r2 \<in> set [rowW 1 ''Mon'' ''09:00'' ''10:00'', rowW 1 ''Mon'' ''10:00'' ''11:00'',
            rowW 2 ''Tue'' ''10:00'' ''11:00'', rowW 2 ''Tue'' ''09:00'' ''10:00''].
          sc_courseId r1 = 1 \<longrightarrow> sc_courseId r2 = 2 \<longrightarrow>
          \<not> (sc_day r1 = sc_day r2 \<and> sc_startTime r1 = sc_startTime r2)"
    by blast
  then have "\<not> (sc_day (rowW 1 ''Mon'' ''09:00'' ''10:00'') = sc_day (rowW 2 ''Tue'' ''09:00'' ''10:00'')
          \<and> sc_startTime (rowW 1 ''Mon'' ''09:00'' ''10:00'')
              = sc_startTime (rowW 2 ''Tue'' ''09:00'' ''10:00''))"
    by (simp add: rowW_def)
  ultimately show ?thesis
    using scenarioW_conflict scenarioW_parse scenarioW_starts scenarioW_rows by blast
qed

section \<open>A malformed conflict record\<close>




section \<open>Determinism and the randomness source\<close>




section \<open>The conflict check groups by day and times\<close>

text \<open>
  C8, as the claim states it, fails: the groups are formed by the string that joins day,
  start time and end time with dashes, not by the tuple. A row on day \<open>Mon-Wed\<close> at
  \<open>09:00\<close> and a row on day \<open>Mon\<close> at \<open>Wed-09:00\<close> of one instructor have different
  tuples and the same string, and are reported as a conflict.
\<close>

theorem dashed_key_counterexample:
  "sc_instructorId (rowW 1 ''Mon-Wed'' ''09:00'' ''10:00'')
     = sc_instructorId (rowW 2 ''Mon'' ''Wed-09:00'' ''10:00'')
   \<and> sc_day (rowW 1 ''Mon-Wed'' ''09:00'' ''10:00'') \<noteq> sc_day (rowW 2 ''Mon'' ''Wed-09:00'' ''10:00'')
   \<and> groupedByTuple sc_instructorId dashRows = []
   \<and> instructorConflicts (checkConflicts dashRows) =
       [\<lparr> conflict_id = 7, conflict_classes = dashRows \<rparr>]"
  using dashRows_facts by blast

text \<open>
  C8, amended. \<open>checkConflicts\<close> groups rows, per instructor and per classroom, by the
  string that joins day, start time and end time with dashes: its two lists are the
  groups by key, one entry with the whole group for every row that has an earlier row in
  its group. For rows whose day and
  start time contain no dash and whose end time is a string, this is grouping by
  equality of day, start time and end time: the two lists are the groups by tuple, one
  entry with the whole group for every row that has an earlier row in its group. In
  particular, two rows with the same instructor and identical day, start and end time,
  of any content, give exactly one instructor conflict, and its group is exactly those
  two rows.
\<close>

theorem checkConflicts_groups_by_tuple:
  "instructorConflicts (checkConflicts rows) = groupedByKey sc_instructorId rows
   \<and> classroomConflicts (checkConflicts rows) = groupedByKey sc_classroomId rows
   \<and> ((\<forall>r \<in> set rows. plainRow r) \<longrightarrow>
       instructorConflicts (checkConflicts rows) = groupedByTuple sc_instructorId rows
     \<and> classroomConflicts (checkConflicts rows) = groupedByTuple sc_classroomId rows)
   \<and> (sc_instructorId r1 = sc_instructorId r2 \<and> sameTime r1 r2 \<longrightarrow>
        instructorConflicts (checkConflicts [r1, r2]) =
          [\<lparr> conflict_id = sc_instructorId r1, conflict_classes = [r1, r2] \<rparr>])"
  using scanConflicts_tuple[of rows sc_instructorId] scanConflicts_tuple[of rows sc_classroomId]
    scanConflicts_pair[of sc_instructorId r1 r2]
    scanConflicts_key[of sc_instructorId rows] scanConflicts_key[of sc_classroomId rows]
  by (simp add: checkConflicts_def)

theorem checkConflicts_groups_by_tuple_witness:
  "list_all plainRow clashRows
   \<and> sc_instructorId (rowW 1 ''Mon'' ''09:00'' ''10:00'') = sc_instructorId (rowW 2 ''Mon'' ''09:00'' ''10:00'')
   \<and> sameTime (rowW 1 ''Mon'' ''09:00'' ''10:00'') (rowW 2 ''Mon'' ''09:00'' ''10:00'')
   \<and> instructorConflicts (checkConflicts clashRows) = [\<lparr> conflict_id = 7, conflict_classes = clashRows \<rparr>]
   \<and> classroomConflicts (checkConflicts clashRows) = [\<lparr> conflict_id = 5, conflict_classes = clashRows \<rparr>]
   \<and> instructorConflicts (checkConflicts [rowW 1 ''Mon'' ''09:00'' ''10:00'', rowW 2 ''Mon'' ''09:00'' ''10:00'']) =
       [\<lparr> conflict_id = sc_instructorId (rowW 1 ''Mon'' ''09:00'' ''10:00''),
          conflict_classes = [rowW 1 ''Mon'' ''09:00'' ''10:00'', rowW 2 ''Mon'' ''09:00'' ''10:00''] \<rparr>]"
proof -
  from clashRows_facts(1) have p: "\<forall>r \<in> set clashRows. plainRow r" by (simp add: list_all_iff)
  from checkConflicts_groups_by_tuple[of clashRows "rowW 1 ''Mon'' ''09:00'' ''10:00''"
      "rowW 2 ''Mon'' ''09:00'' ''10:00''"]
  have a: "(\<forall>r \<in> set clashRows. plainRow r) \<longrightarrow>
        instructorConflicts (checkConflicts clashRows) = groupedByTuple sc_instructorId clashRows
      \<and> classroomConflicts (checkConflicts clashRows) = groupedByTuple sc_classroomId clashRows"
    and b: "sc_instructorId (rowW 1 ''Mon'' ''09:00'' ''10:00'') = sc_instructorId (rowW 2 ''Mon'' ''09:00'' ''10:00'')
        \<and> sameTime (rowW 1 ''Mon'' ''09:00'' ''10:00'') (rowW 2 ''Mon'' ''09:00'' ''10:00'') \<longrightarrow>
        instructorConflicts (checkConflicts [rowW 1 ''Mon'' ''09:00'' ''10:00'', rowW 2 ''Mon'' ''09:00'' ''10:00'']) =
          [\<lparr> conflict_id = sc_instructorId (rowW 1 ''Mon'' ''09:00'' ''10:00''),
             conflict_classes = [rowW 1 ''Mon'' ''09:00'' ''10:00'', rowW 2 ''Mon'' ''09:00'' ''10:00''] \<rparr>]"
    by blast+
  from a p clashRows_facts(4,5)
  have "instructorConflicts (checkConflicts clashRows) = [\<lparr> conflict_id = 7, conflict_classes = clashRows \<rparr>]"
    and "classroomConflicts (checkConflicts clashRows) = [\<lparr> conflict_id = 5, conflict_classes = clashRows \<rparr>]"
    by simp_all
  moreover from b clashRows_facts(2,3)
  have "instructorConflicts (checkConflicts [rowW 1 ''Mon'' ''09:00'' ''10:00'', rowW 2 ''Mon'' ''09:00'' ''10:00'']) =
          [\<lparr> conflict_id = sc_instructorId (rowW 1 ''Mon'' ''09:00'' ''10:00''),
             conflict_classes = [rowW 1 ''Mon'' ''09:00'' ''10:00'', rowW 2 ''Mon'' ''09:00'' ''10:00''] \<rparr>]"
    by blast
  ultimately show ?thesis using clashRows_facts(1,2,3) by blast
qed

section \<open>The inputs are read-only\<close>

text \<open>
  C9. A run leaves its inputs alone: with the caller's arrays in a store, after any call
  (returning or throwing) the courses, instructors, classrooms and constraints arrays
  behind the caller's references hold what they held before, as does every other array
  that existed before the call; the sorts overwrite only arrays that the run allocated
  itself. The run on the store computes what the run on the values computes.
\<close>

theorem inputs_read_only:
  assumes "validRefs h refs"
    and "runGeneratorH weekDays timeSlots rnd g h refs = (h', res)"
  shows "optionsAt h' refs = optionsAt h refs \<and> keeps h h'
       \<and> res = runGenerator weekDays timeSlots rnd g (optionsAt h refs)"
proof -
  note k = runGeneratorH_refines[OF assms]
  from assms(1) keeps_nth[OF k(1)] have "courseArrays h' ! ref_courses refs = courseArrays h ! ref_courses refs"
    and "classroomArrays h' ! ref_classrooms refs = classroomArrays h ! ref_classrooms refs"
    by (simp_all add: validRefs_def)
  moreover from k(1) have "instructorArrays h' = instructorArrays h" "constraintArrays h' = constraintArrays h"
    by (simp_all add: keeps_def)
  ultimately have "optionsAt h' refs = optionsAt h refs" by (simp add: optionsAt_def)
  with k show ?thesis by simp
qed

theorem inputs_read_only_witness:
  "validRefs heapW refsW
   \<and> runGeneratorH wdW tsW flipShuffle 0 heapW refsW =
       (fst (runGeneratorH wdW tsW flipShuffle 0 heapW refsW),
        snd (runGeneratorH wdW tsW flipShuffle 0 heapW refsW))
   \<and> courseArrays (fst (runGeneratorH wdW tsW flipShuffle 0 heapW refsW)) =
       [[courseA, courseB], [courseB, courseA]]
   \<and> classroomArrays (fst (runGeneratorH wdW tsW flipShuffle 0 heapW refsW)) =
       [[roomBig, roomR], [roomR, roomBig], [roomR, roomBig]]
   \<and> optionsAt (fst (runGeneratorH wdW tsW flipShuffle 0 heapW refsW)) refsW = optionsAt heapW refsW
   \<and> keeps heapW (fst (runGeneratorH wdW tsW flipShuffle 0 heapW refsW))
   \<and> snd (runGeneratorH wdW tsW flipShuffle 0 heapW refsW) =
       runGenerator wdW tsW flipShuffle 0 (optionsAt heapW refsW)"
proof -
  have c: "runGeneratorH wdW tsW flipShuffle 0 heapW refsW =
       (fst (runGeneratorH wdW tsW flipShuffle 0 heapW refsW),
        snd (runGeneratorH wdW tsW flipShuffle 0 heapW refsW))"
    by simp
  from inputs_read_only[OF heapW_valid c] heapW_valid heapW_after c show ?thesis
    by blast
qed

end
